theory Spec2Isabelle
  imports Main
begin

section \<open>JavaScript strings\<close>

text \<open>
  A JavaScript string is modelled as a \<^typ>\<open>string\<close>, one \<^typ>\<open>char\<close> per code unit; code
  units from 256 on are not represented. \<open>trim\<close> strips the white space of that range (tab,
  line feed, vertical tab, form feed, carriage return, space and the no-break space);
  \<open>toLowerCase\<close> maps \<open>A..Z\<close> to \<open>a..z\<close>.
\<close>

definition is_space :: "char \<Rightarrow> bool" where
  "is_space c \<longleftrightarrow>
     c \<in> set [CHR 0x09, CHR 0x0A, CHR 0x0B, CHR 0x0C, CHR 0x0D, CHR 0x20, CHR 0xA0]"

text \<open>\<^verbatim>\<open>s.trim()\<close>\<close>

definition trim :: "string \<Rightarrow> string" where
  "trim s = rev (dropWhile is_space (rev (dropWhile is_space s)))"

definition uppers :: string where
  "uppers = ''ABCDEFGHIJKLMNOPQRSTUVWXYZ''"

definition lowers :: string where
  "lowers = ''abcdefghijklmnopqrstuvwxyz''"

definition lower_char :: "char \<Rightarrow> char" where
  "lower_char c = (case map_of (zip uppers lowers) c of Some l \<Rightarrow> l | None \<Rightarrow> c)"

text \<open>\<^verbatim>\<open>s.toLowerCase()\<close>\<close>

definition toLowerCase :: "string \<Rightarrow> string" where
  "toLowerCase s = map lower_char s"

text \<open>\<^verbatim>\<open>s.split(sep)\<close> for a one-character separator; \<^verbatim>\<open>"".split(",")\<close> is \<^verbatim>\<open>[""]\<close>.\<close>

fun split_on :: "char \<Rightarrow> string \<Rightarrow> string list" where
  "split_on sep [] = [[]]"
| "split_on sep (c # cs) =
     (if c = sep then [] # split_on sep cs
      else (case split_on sep cs of
              [] \<Rightarrow> [[c]]
            | p # ps \<Rightarrow> (c # p) # ps))"

text \<open>\<^verbatim>\<open>xs.join(sep)\<close> for a one-character separator.\<close>

fun join :: "char \<Rightarrow> string list \<Rightarrow> string" where
  "join sep [] = []"
| "join sep [x] = x"
| "join sep (x # y # ys) = x @ sep # join sep (y # ys)"

text \<open>The character class \<^verbatim>\<open>[a-zA-Z0-9_-]\<close> of both tag composers.\<close>

definition is_tag_char :: "char \<Rightarrow> bool" where
  "is_tag_char c \<longleftrightarrow> c \<in> set (lowers @ uppers @ ''0123456789_-'')"

text \<open>\<^verbatim>\<open>s.replace(/[^a-zA-Z0-9_-]/g, '')\<close>\<close>

definition validChars :: "string \<Rightarrow> string" where
  "validChars s = filter is_tag_char s"

section \<open>The tag composers\<close>

text \<open>
  Both composition sites keep the React state \<^verbatim>\<open>isTagging\<close> and \<^verbatim>\<open>tagDraft\<close> and a list of
  committed tags, the field \<open>committed\<close> (the prop \<^verbatim>\<open>value\<close> of \<^verbatim>\<open>TagInput\<close>, whose parent
  stores what \<^verbatim>\<open>onChange\<close> hands it; the state \<^verbatim>\<open>tags\<close> of \<^verbatim>\<open>ThreadEditModal\<close>). \<^verbatim>\<open>TagInput\<close>
  also reads and writes the text of its uncontrolled input element (\<^verbatim>\<open>e.target.value\<close>); the
  element has a caret, a position between 0 and the length of the text.
\<close>

record composer =
  isTagging :: bool
  tagDraft :: string
  committed :: "string list"

record tag_input = composer +
  inputValue :: string
  caret :: nat

text \<open>
  \<^verbatim>\<open>e.key\<close>: the named keys the handlers test, a key of one character, the named keys that
  move the caret or delete forward, or any other named key (\<^verbatim>\<open>Tab\<close>, \<^verbatim>\<open>Shift\<close>, ...). All
  names but those of the character keys are longer than one character.
\<close>

datatype key =
  Enter | Escape | Backspace | Printable char
  | ArrowLeft | ArrowRight | Home | End | Delete | OtherKey

text \<open>
  What reaches the input element:
  \<^item> \<open>Key\<close>: a key pressed alone, with no selection in the element;
  \<^item> \<open>Modified\<close>: a key whose default action is another one, because Ctrl, Cmd or Alt is
    held or a selection is replaced. The handlers see \<^verbatim>\<open>e.key\<close> as ever; the default action,
    unless prevented, leaves the element with the given text and caret, or (\<open>None\<close>)
    changes nothing;
  \<^item> \<open>Paste\<close>: text inserted at the caret without a key (menu, drop);
  \<^item> \<open>Click\<close>: the caret set with the pointer.
\<close>

datatype input_event =
  Key key | Modified key "(string \<times> nat) option" | Paste string | Click nat

definition initial_tag_input :: "string list \<Rightarrow> tag_input" where
  "initial_tag_input v =
     \<lparr>isTagging = False, tagDraft = [], committed = v, inputValue = [], caret = 0\<rparr>"

definition initial_composer :: "string list \<Rightarrow> composer" where
  "initial_composer v = \<lparr>isTagging = False, tagDraft = [], committed = v\<rparr>"

subsection \<open>TagInput.tsx\<close>

text \<open>
  \<^verbatim>\<open>handleKeyDown\<close>; the second component is whether \<^verbatim>\<open>e.preventDefault()\<close> was called.
  Writing the empty string to \<^verbatim>\<open>e.currentTarget.value\<close> leaves the caret at 0.
\<close>

definition handleKeyDown :: "bool \<Rightarrow> key \<Rightarrow> tag_input \<Rightarrow> tag_input \<times> bool" where
  "handleKeyDown disabled k st =
     (if disabled then (st, False)
      else if isTagging st then
        (case k of
           Enter \<Rightarrow>
             (let cleaned = toLowerCase (trim (tagDraft st));
                  st1 = (if cleaned \<noteq> [] \<and> cleaned \<notin> set (committed st)
                         then st\<lparr>committed := committed st @ [cleaned]\<rparr> else st)
              in (st1\<lparr>isTagging := False, tagDraft := [], inputValue := [], caret := 0\<rparr>,
                  True))
         | Escape \<Rightarrow>
             (st\<lparr>isTagging := False, tagDraft := [], inputValue := [], caret := 0\<rparr>, True)
         | Backspace \<Rightarrow>
             (if tagDraft st = []
              then (st\<lparr>isTagging := False, inputValue := [], caret := 0\<rparr>, True)
              else (st, False))
         | Printable ch \<Rightarrow> (if \<not> is_tag_char ch then (st, True) else (st, False))
         | _ \<Rightarrow> (st, False))
      else (st, False))"

text \<open>
  \<^verbatim>\<open>e.target.value = v\<close>: the element holds \<open>v\<close>; when that is another text than before, the
  caret moves to its end.
\<close>

definition set_value :: "string \<Rightarrow> tag_input \<Rightarrow> tag_input" where
  "set_value v st =
     (if v = inputValue st then st else st\<lparr>inputValue := v, caret := length v\<rparr>)"

text \<open>\<^verbatim>\<open>handleInputChange\<close>, run on the text the input element holds when the event fires.\<close>

definition handleInputChange :: "bool \<Rightarrow> tag_input \<Rightarrow> tag_input" where
  "handleInputChange disabled st =
     (if disabled then st
      else if isTagging st then
        (let st1 = st\<lparr>tagDraft := validChars (inputValue st)\<rparr>
         in if inputValue st \<noteq> validChars (inputValue st)
            then set_value (validChars (inputValue st)) st1 else st1)
      else if CHR ''#'' \<in> set (inputValue st) then
        (let lastPart = last (split_on (CHR ''#'') (inputValue st))
         in set_value (validChars lastPart)
              (st\<lparr>isTagging := True, tagDraft := validChars lastPart\<rparr>))
      else if length (inputValue st) > 0 then set_value [] st
      else st)"

text \<open>
  What the browser does with a key pressed alone that was not prevented: a character is
  inserted at the caret, Backspace removes the character before the caret, Delete the one
  after it, the arrows, Home and End move the caret. The second component is whether the
  text changed, after which the change event fires.
\<close>

definition default_action :: "key \<Rightarrow> tag_input \<Rightarrow> tag_input \<times> bool" where
  "default_action k st =
     (let v = inputValue st; i = caret st
      in case k of
           Printable c \<Rightarrow>
             (st\<lparr>inputValue := take i v @ c # drop i v, caret := Suc i\<rparr>, True)
         | Backspace \<Rightarrow>
             (if i = 0 \<or> v = [] then (st, False)
              else (st\<lparr>inputValue := take (i - 1) v @ drop i v, caret := i - 1\<rparr>, True))
         | Delete \<Rightarrow>
             (if i \<ge> length v then (st, False)
              else (st\<lparr>inputValue := take i v @ drop (Suc i) v\<rparr>, True))
         | ArrowLeft \<Rightarrow> (st\<lparr>caret := i - 1\<rparr>, False)
         | ArrowRight \<Rightarrow> (st\<lparr>caret := min (Suc i) (length v)\<rparr>, False)
         | Home \<Rightarrow> (st\<lparr>caret := 0\<rparr>, False)
         | End \<Rightarrow> (st\<lparr>caret := length v\<rparr>, False)
         | _ \<Rightarrow> (st, False))"

text \<open>
  One input event at the \<^verbatim>\<open>TagInput\<close>: the key handler, then, unless it prevented it, the
  default action, then, when the text changed, the change handler. A disabled input
  element receives no event.
\<close>

definition tag_input_step :: "bool \<Rightarrow> input_event \<Rightarrow> tag_input \<Rightarrow> tag_input" where
  "tag_input_step disabled ev st =
     (if disabled then st
      else (case ev of
              Key k \<Rightarrow>
                (case handleKeyDown disabled k st of
                   (st1, prevented) \<Rightarrow>
                     (if prevented then st1
                      else (case default_action k st1 of
                              (st2, changed) \<Rightarrow>
                                if changed then handleInputChange disabled st2 else st2)))
            | Modified k result \<Rightarrow>
                (case handleKeyDown disabled k st of
                   (st1, prevented) \<Rightarrow>
                     (if prevented then st1
                      else (case result of
                              None \<Rightarrow> st1
                            | Some (v, i) \<Rightarrow>
                                if v = inputValue st1 then st1\<lparr>caret := min i (length v)\<rparr>
                                else handleInputChange disabled
                                       (st1\<lparr>inputValue := v, caret := min i (length v)\<rparr>))))
            | Paste txt \<Rightarrow>
                (if txt = [] then st
                 else handleInputChange disabled
                        (st\<lparr>inputValue := take (caret st) (inputValue st) @ txt
                                             @ drop (caret st) (inputValue st),
                            caret := caret st + length txt\<rparr>))
            | Click i \<Rightarrow> st\<lparr>caret := min i (length (inputValue st))\<rparr>))"

definition tag_input_run :: "bool \<Rightarrow> input_event list \<Rightarrow> tag_input \<Rightarrow> tag_input" where
  "tag_input_run disabled evs st = foldl (\<lambda>s ev. tag_input_step disabled ev s) st evs"

subsection \<open>ThreadEditModal (the tags input's \<^verbatim>\<open>onKeyDown\<close>)\<close>

text \<open>The handler tests \<^verbatim>\<open>e.key\<close> only: no modifier, and nothing of the element.\<close>

definition modal_onKeyDown :: "key \<Rightarrow> composer \<Rightarrow> composer" where
  "modal_onKeyDown k st =
     (if k = Printable (CHR ''#'') then
        (if \<not> isTagging st then st\<lparr>isTagging := True, tagDraft := []\<rparr> else st)
      else if isTagging st then
        (case k of
           Enter \<Rightarrow>
             (let cleaned = toLowerCase (trim (tagDraft st));
                  st1 = (if cleaned \<noteq> [] \<and> cleaned \<notin> set (committed st)
                         then st\<lparr>committed := committed st @ [cleaned]\<rparr> else st)
              in st1\<lparr>isTagging := False, tagDraft := []\<rparr>)
         | Backspace \<Rightarrow> st\<lparr>tagDraft := butlast (tagDraft st)\<rparr>
         | Escape \<Rightarrow> st\<lparr>isTagging := False, tagDraft := []\<rparr>
         | Printable ch \<Rightarrow>
             (if is_tag_char ch then st\<lparr>tagDraft := tagDraft st @ [ch]\<rparr> else st)
         | _ \<Rightarrow> st)
      else st)"

text \<open>
  The modal's input element has no change handler: text that reaches the element (typed
  while idle, or pasted) changes no state, and neither does the caret.
\<close>

definition modal_step :: "input_event \<Rightarrow> composer \<Rightarrow> composer" where
  "modal_step ev st =
     (case ev of
        Key k \<Rightarrow> modal_onKeyDown k st
      | Modified k result \<Rightarrow> modal_onKeyDown k st
      | Paste txt \<Rightarrow> st
      | Click i \<Rightarrow> st)"

definition modal_run :: "input_event list \<Rightarrow> composer \<Rightarrow> composer" where
  "modal_run evs st = foldl (\<lambda>s ev. modal_step ev s) st evs"

text \<open>Typing a text, one key per character.\<close>

definition typed :: "string \<Rightarrow> input_event list" where
  "typed s = map (\<lambda>c. Key (Printable c)) s"

section \<open>Query strings\<close>

text \<open>
  A \<^verbatim>\<open>URLSearchParams\<close> object is the list of its name/value pairs, as the platform parsed
  them from the query string (or in the order \<^verbatim>\<open>set\<close> added them); \<^verbatim>\<open>get\<close> returns the first
  value of a name or \<^verbatim>\<open>null\<close>.
\<close>

type_synonym URLSearchParams = "(string \<times> string) list"

definition get :: "URLSearchParams \<Rightarrow> string \<Rightarrow> string option" where
  "get params name = map_of params name"

text \<open>\<^verbatim>\<open>x || ''\<close> on a string or \<^verbatim>\<open>null\<close>.\<close>

definition or_empty :: "string option \<Rightarrow> string" where
  "or_empty x = (case x of None \<Rightarrow> [] | Some v \<Rightarrow> v)"

text \<open>\<^verbatim>\<open>String(n)\<close> for an integer \<open>n\<close>.\<close>

definition digit_char :: "nat \<Rightarrow> char" where
  "digit_char n = ''0123456789'' ! (n mod 10)"

fun string_of_nat :: "nat \<Rightarrow> string" where
  "string_of_nat n =
     (if n < 10 then [digit_char n] else string_of_nat (n div 10) @ [digit_char n])"

declare string_of_nat.simps [simp del]

definition string_of_int :: "int \<Rightarrow> string" where
  "string_of_int i =
     (if i < 0 then CHR ''-'' # string_of_nat (nat (- i)) else string_of_nat (nat i))"

section \<open>The threads list page\<close>

subsection \<open>State\<close>

text \<open>
  The filter part of the page's React state, with the names of the source: \<^verbatim>\<open>q\<close> is the
  keyword, \<^verbatim>\<open>category\<close> is the category id as the string the select element and the URL
  carry (the empty string is no category), \<^verbatim>\<open>page\<close> the page number. The first three are
  what the URL is decoded into.
\<close>

record filters =
  q :: string
  tags :: "string list"
  category :: string

record FilterState = filters +
  page :: int

text \<open>
  A thread as the page projects it from a response (\<^verbatim>\<open>id\<close>, \<^verbatim>\<open>title\<close>; the other projected
  fields are carried along in the same way and are left out).
\<close>

record ThreadSummary =
  thread_id :: int
  title :: string

text \<open>
  What \<^verbatim>\<open>setThreads\<close> stores: an array of threads, or, the responses being untyped, a value
  that is not an array.
\<close>

datatype threads_val = Rows "ThreadSummary list" | NotRows

record page_state = FilterState +
  threads :: threads_val
  error :: "string option"
  loading :: bool
  total :: "int option"
  isSearching :: bool

definition PAGE_SIZE :: int where
  "PAGE_SIZE = 20"

subsection \<open>Decoding the URL (the effect on \<^verbatim>\<open>location.search\<close>)\<close>

text \<open>
  The effect reads \<^verbatim>\<open>tag\<close>, \<^verbatim>\<open>category\<close> and \<^verbatim>\<open>q\<close>; it reads no \<^verbatim>\<open>page\<close> parameter. These
  are the three values it computes.
\<close>

definition decode :: "URLSearchParams \<Rightarrow> filters" where
  "decode params =
     (let tagParam = or_empty (get params ''tag'');
          categoryParam = or_empty (get params ''category'');
          searchParam = or_empty (get params ''q'')
      in \<lparr>q = searchParam,
          tags = (if tagParam \<noteq> [] then map trim (split_on (CHR '','') tagParam) else []),
          category = categoryParam\<rparr>)"

text \<open>
  It stores them with \<^verbatim>\<open>setTags\<close>, \<^verbatim>\<open>setCategory\<close> and \<^verbatim>\<open>setQ\<close> and writes nothing else: the
  page number stays what it was (only a loader that succeeds calls \<^verbatim>\<open>setPage\<close>).
\<close>

definition store_decoded :: "filters \<Rightarrow> page_state \<Rightarrow> page_state" where
  "store_decoded d st = st\<lparr>tags := tags d, category := category d, q := q d\<rparr>"

text \<open>The filter a page state holds.\<close>

definition filter_of :: "page_state \<Rightarrow> FilterState" where
  "filter_of st = \<lparr>q = q st, tags = tags st, category = category st, page = page st\<rparr>"

text \<open>
  Modelled from the spec: the encoder of section 4.2, which the page does not have (it never
  writes the URL). It serializes the parameters \<^verbatim>\<open>q\<close>, \<^verbatim>\<open>tag\<close> (comma-joined), \<^verbatim>\<open>category\<close> and
  \<^verbatim>\<open>page\<close> and omits a field that equals its default.
\<close>

definition encode :: "FilterState \<Rightarrow> URLSearchParams" where
  "encode s =
     (if q s \<noteq> [] then [(''q'', q s)] else [])
     @ (if tags s \<noteq> [] then [(''tag'', join (CHR '','') (tags s))] else [])
     @ (if category s \<noteq> [] then [(''category'', category s)] else [])
     @ (if page s \<noteq> 1 then [(''page'', string_of_int (page s))] else [])"

text \<open>The invariant of section 3 on the tag list, and on the whole filter.\<close>

definition normalized_tags :: "string list \<Rightarrow> bool" where
  "normalized_tags ts \<longleftrightarrow> distinct ts \<and> list_all (\<lambda>t. toLowerCase t = t) ts"

definition FilterState_invariant :: "FilterState \<Rightarrow> bool" where
  "FilterState_invariant s \<longleftrightarrow> page s \<ge> 1 \<and> normalized_tags (tags s) \<and> trim (q s) = q s"

subsection \<open>The network\<close>

text \<open>
  A parsed JSON body, as far as the page looks into it: \<^verbatim>\<open>null\<close>, a bare array of threads, or
  an object with the optional fields \<^verbatim>\<open>results\<close>, \<^verbatim>\<open>count\<close>, \<^verbatim>\<open>error\<close>, \<^verbatim>\<open>threads\<close> and
  \<^verbatim>\<open>total_threads\<close> (\<open>None\<close> is an absent field).
\<close>

record json_object =
  j_results :: "ThreadSummary list option"
  j_count :: "int option"
  j_error :: "string option"
  j_threads :: "ThreadSummary list option"
  j_total_threads :: "int option"

datatype json = JNull | JArray "ThreadSummary list" | JObject json_object

text \<open>
  What \<^verbatim>\<open>fetch\<close> followed by \<^verbatim>\<open>res.json()\<close> gives: a rejection with the message of its error
  (transport failure, or a body that is not JSON), or \<^verbatim>\<open>res.ok\<close> and the parsed body.
\<close>

datatype response = Rejected string | Response bool json

datatype endpoint = ApiThreads | ApiSearch

type_synonym request = "endpoint \<times> URLSearchParams"

type_synonym network = "request \<Rightarrow> response"

text \<open>The message of the \<^verbatim>\<open>TypeError\<close> of a property access that fails (it is the engine's).\<close>

definition type_error_message :: string where
  "type_error_message = ''TypeError''"

text \<open>\<^verbatim>\<open>data.error || dflt\<close>, which throws on \<^verbatim>\<open>null\<close>.\<close>

definition error_or :: "json \<Rightarrow> string \<Rightarrow> string" where
  "error_or data dflt =
     (case data of
        JNull \<Rightarrow> type_error_message
      | JArray rows \<Rightarrow> dflt
      | JObject ob \<Rightarrow> (case j_error ob of
                       None \<Rightarrow> dflt
                     | Some e \<Rightarrow> if e \<noteq> [] then e else dflt))"

text \<open>
  How a request ends: the values its \<^verbatim>\<open>try\<close> block hands to \<^verbatim>\<open>setThreads\<close>, \<^verbatim>\<open>setTotal\<close>,
  \<^verbatim>\<open>setPage\<close> and \<^verbatim>\<open>setIsSearching\<close>, or the message its \<^verbatim>\<open>catch\<close> block hands to \<^verbatim>\<open>setError\<close>.
\<close>

datatype outcome = Commit threads_val "int option" int bool | Failed string

text \<open>The projection \<^verbatim>\<open>t => ({ id: t.id, title: t.title, ... })\<close>.\<close>

definition project :: "ThreadSummary \<Rightarrow> ThreadSummary" where
  "project t = \<lparr>thread_id = thread_id t, title = title t\<rparr>"

subsection \<open>The requests\<close>

text \<open>The query of \<^verbatim>\<open>loadThreadsWithFilters\<close> and of \<^verbatim>\<open>loadAllThreads\<close>.\<close>

definition listing_request :: "string list \<Rightarrow> string \<Rightarrow> int \<Rightarrow> request" where
  "listing_request tagsToUse categoryToUse targetPage =
     (ApiThreads,
      [(''page'', string_of_int targetPage)]
      @ (if length tagsToUse > 0 then [(''tag'', join (CHR '','') tagsToUse)] else [])
      @ (if trim categoryToUse \<noteq> [] then [(''category'', trim categoryToUse)] else []))"

text \<open>The query \<^verbatim>\<open>searchApi\<close> builds; it leaves a falsy \<^verbatim>\<open>page\<close> out.\<close>

definition search_request :: "string \<Rightarrow> int \<Rightarrow> request" where
  "search_request keyword targetPage =
     (ApiSearch,
      [(''q'', keyword), (''type'', ''threads''), (''sort'', ''relevance'')]
      @ (if targetPage \<noteq> 0 then [(''page'', string_of_int targetPage)] else [])
      @ [(''limit'', string_of_int PAGE_SIZE)])"

text \<open>The second query of \<^verbatim>\<open>doSearchWithFilters\<close>, restricted to the ids of the hits.\<close>

definition filter_request :: "int list \<Rightarrow> string list \<Rightarrow> string \<Rightarrow> request" where
  "filter_request threadIds tagsToUse categoryToUse =
     (ApiThreads,
      [(''ids'', join (CHR '','') (map string_of_int threadIds))]
      @ (if length tagsToUse > 0 then [(''tag'', join (CHR '','') tagsToUse)] else [])
      @ (if trim categoryToUse \<noteq> [] then [(''category'', trim categoryToUse)] else []))"

subsection \<open>Fetching\<close>

text \<open>
  The \<^verbatim>\<open>try\<close>/\<^verbatim>\<open>catch\<close> of \<^verbatim>\<open>loadThreadsWithFilters\<close> (and of \<^verbatim>\<open>loadAllThreads\<close> without a
  keyword) between its first and its last write to the state: the requests it issues, in
  order, and how it ends.
\<close>

definition loadThreadsWithFilters_fetch ::
  "network \<Rightarrow> string list \<Rightarrow> string \<Rightarrow> int \<Rightarrow> request list \<times> outcome" where
  "loadThreadsWithFilters_fetch net tagsToUse categoryToUse targetPage =
     (let req = listing_request tagsToUse categoryToUse targetPage
      in ([req],
          (case net req of
             Rejected m \<Rightarrow> Failed m
           | Response ok data \<Rightarrow>
               (if \<not> ok then Failed (error_or data ''Failed to load threads'')
                else (case data of
                        JNull \<Rightarrow> Failed type_error_message
                      | JArray rows \<Rightarrow>
                          Commit (Rows rows) (Some (int (length rows))) targetPage False
                      | JObject ob \<Rightarrow>
                          (case j_results ob of
                             Some rows \<Rightarrow>
                               Commit (Rows rows)
                                 (case j_count ob of
                                    Some c \<Rightarrow> Some c
                                  | None \<Rightarrow> Some (int (length rows)))
                                 targetPage False
                           | None \<Rightarrow> Commit NotRows (j_count ob) targetPage False))))))"

text \<open>\<^verbatim>\<open>e?.message || 'Search failed'\<close>\<close>

definition search_failed :: "string \<Rightarrow> outcome" where
  "search_failed m = Failed (if m \<noteq> [] then m else ''Search failed'')"

text \<open>\<^verbatim>\<open>res.total_threads || 0\<close>\<close>

definition total_or_0 :: "int option \<Rightarrow> int" where
  "total_or_0 t = (case t of None \<Rightarrow> 0 | Some n \<Rightarrow> n)"

text \<open>
  The second stage of \<^verbatim>\<open>doSearchWithFilters\<close>, given the response to the listing request
  restricted to the hits: its rows replace the hits when the response is ok, the hits stay
  when it is not.
\<close>

definition intersect_hits ::
  "response \<Rightarrow> ThreadSummary list \<Rightarrow> int option \<Rightarrow> int \<Rightarrow> outcome" where
  "intersect_hits filterRes searchResults totalThreads targetPage =
     (case filterRes of
        Rejected m \<Rightarrow> search_failed m
      | Response fok filterData \<Rightarrow>
          (if fok then
             (case filterData of
                JNull \<Rightarrow> search_failed type_error_message
              | JArray rows \<Rightarrow> Commit (Rows (map project rows)) totalThreads targetPage True
              | JObject fob \<Rightarrow>
                  (case j_results fob of
                     None \<Rightarrow> search_failed type_error_message
                   | Some rows \<Rightarrow>
                       Commit (Rows (map project rows)) totalThreads targetPage True))
           else Commit (Rows searchResults) totalThreads targetPage True))"

text \<open>
  The \<^verbatim>\<open>try\<close>/\<^verbatim>\<open>catch\<close> of \<^verbatim>\<open>doSearchWithFilters\<close>: without a keyword it is
  \<^verbatim>\<open>loadThreadsWithFilters\<close>; with one, the search request, then, with a tag or category
  filter and at least one hit, the listing request restricted to the hits.
\<close>

definition doSearchWithFilters_fetch ::
  "network \<Rightarrow> string \<Rightarrow> string list \<Rightarrow> string \<Rightarrow> int \<Rightarrow> request list \<times> outcome" where
  "doSearchWithFilters_fetch net keyword tagsToUse categoryToUse targetPage =
     (if trim keyword = [] then
        loadThreadsWithFilters_fetch net tagsToUse categoryToUse targetPage
      else
        (let sreq = search_request keyword targetPage
         in (case net sreq of
               Rejected m \<Rightarrow> ([sreq], search_failed m)
             | Response ok res \<Rightarrow>
                 (if \<not> ok then ([sreq], search_failed (error_or res ''Search failed''))
                  else (case res of
                          JNull \<Rightarrow> ([sreq], search_failed type_error_message)
                        | JArray rows \<Rightarrow> ([sreq], search_failed type_error_message)
                        | JObject ob \<Rightarrow>
                            (case j_threads ob of
                               None \<Rightarrow> ([sreq], search_failed type_error_message)
                             | Some hits \<Rightarrow>
                                 (let searchResults = map project hits;
                                      totalThreads = Some (total_or_0 (j_total_threads ob));
                                      threadIds = map thread_id searchResults;
                                      freq = filter_request threadIds tagsToUse categoryToUse
                                  in if (trim categoryToUse \<noteq> [] \<or> length tagsToUse > 0)
                                        \<and> length threadIds > 0
                                     then ([sreq, freq],
                                           intersect_hits (net freq) searchResults totalThreads
                                             targetPage)
                                     else ([sreq],
                                           Commit (Rows searchResults) totalThreads targetPage
                                             True))))))))"

subsection \<open>Writing the state\<close>

text \<open>\<^verbatim>\<open>setLoading(true); setError(null)\<close>, before the first \<^verbatim>\<open>await\<close>.\<close>

definition begin_request :: "page_state \<Rightarrow> page_state" where
  "begin_request st = st\<lparr>error := None, loading := True\<rparr>"

text \<open>
  The writes after the last \<^verbatim>\<open>await\<close>, when the response has arrived: the four setters of
  the \<^verbatim>\<open>try\<close> block or \<^verbatim>\<open>setError\<close> of the \<^verbatim>\<open>catch\<close> block, then \<^verbatim>\<open>setLoading(false)\<close>. The
  setters take values, not updater functions, and nothing is compared with the state.
\<close>

definition settle :: "outcome \<Rightarrow> page_state \<Rightarrow> page_state" where
  "settle out st =
     (case out of
        Commit results totalThreads targetPage searching \<Rightarrow>
          st\<lparr>page := targetPage, threads := results, loading := False, total := totalThreads,
             isSearching := searching\<rparr>
      | Failed m \<Rightarrow> st\<lparr>error := Some m, loading := False\<rparr>)"

text \<open>The loaders, each run without another request in between.\<close>

definition loadThreadsWithFilters ::
  "network \<Rightarrow> string list \<Rightarrow> string \<Rightarrow> int \<Rightarrow> page_state \<Rightarrow> request list \<times> page_state" where
  "loadThreadsWithFilters net tagsToUse categoryToUse targetPage st =
     (case loadThreadsWithFilters_fetch net tagsToUse categoryToUse targetPage of
        (reqs, out) \<Rightarrow> (reqs, settle out (begin_request st)))"

definition doSearchWithFilters ::
  "network \<Rightarrow> string \<Rightarrow> string list \<Rightarrow> string \<Rightarrow> int \<Rightarrow> page_state
     \<Rightarrow> request list \<times> page_state" where
  "doSearchWithFilters net keyword tagsToUse categoryToUse targetPage st =
     (if trim keyword = [] then loadThreadsWithFilters net tagsToUse categoryToUse targetPage st
      else (case doSearchWithFilters_fetch net keyword tagsToUse categoryToUse targetPage of
              (reqs, out) \<Rightarrow> (reqs, settle out (begin_request st))))"






text \<open>The visible result page: items, total count and page number.\<close>

definition ResultPage :: "page_state \<Rightarrow> threads_val \<times> int option \<times> int" where
  "ResultPage st = (threads st, total st, page st)"

definition initial_page_state :: page_state where
  "initial_page_state =
     \<lparr>q = [], tags = [], category = [], page = 1, threads = Rows [], error = None,
      loading = False, total = None, isSearching = False\<rparr>"

subsection \<open>The page's handlers\<close>

text \<open>
  The page with its requests under way. A handler reads the state of the render it was
  created in (the view when the event fires) and writes with the setters; what follows an
  \<^verbatim>\<open>await\<close> runs when the response arrives and uses only the handler's own variables. So
  a request issued is kept with the outcome it will have, a timer with the values its
  callback has captured.
\<close>

datatype pending_item =
  Timer string "string list" string | InFlight outcome | ClearInFlight outcome

record page_system =
  view :: page_state
  pending :: "pending_item list"

definition initial_page_system :: page_system where
  "initial_page_system = \<lparr>view = initial_page_state, pending = []\<rparr>"

definition issue :: "outcome \<Rightarrow> page_system \<Rightarrow> page_system" where
  "issue out sys =
     sys\<lparr>view := begin_request (view sys), pending := pending sys @ [InFlight out]\<rparr>"

definition without :: "nat \<Rightarrow> 'a list \<Rightarrow> 'a list" where
  "without i xs = take i xs @ drop (Suc i) xs"

text \<open>Calls of the loaders, with the arguments the caller read.\<close>

definition call_loadThreadsWithFilters ::
  "network \<Rightarrow> string list \<Rightarrow> string \<Rightarrow> int \<Rightarrow> page_system \<Rightarrow> page_system" where
  "call_loadThreadsWithFilters net tagsToUse categoryToUse targetPage sys =
     issue (snd (loadThreadsWithFilters_fetch net tagsToUse categoryToUse targetPage)) sys"

definition call_doSearchWithFilters ::
  "network \<Rightarrow> string \<Rightarrow> string list \<Rightarrow> string \<Rightarrow> int \<Rightarrow> page_system \<Rightarrow> page_system" where
  "call_doSearchWithFilters net keyword tagsToUse categoryToUse targetPage sys =
     (if trim keyword = []
      then call_loadThreadsWithFilters net tagsToUse categoryToUse targetPage sys
      else issue (snd (doSearchWithFilters_fetch net keyword tagsToUse categoryToUse
                         targetPage)) sys)"

text \<open>\<^verbatim>\<open>doSearch\<close> and \<^verbatim>\<open>loadAllThreads\<close> read \<^verbatim>\<open>q\<close>, \<^verbatim>\<open>tags\<close> and \<^verbatim>\<open>category\<close> of their render.\<close>

definition call_doSearch :: "network \<Rightarrow> page_state \<Rightarrow> int \<Rightarrow> page_system \<Rightarrow> page_system" where
  "call_doSearch net render targetPage sys =
     call_doSearchWithFilters net (q render) (tags render) (category render) targetPage sys"

definition call_loadAllThreads ::
  "network \<Rightarrow> page_state \<Rightarrow> int \<Rightarrow> page_system \<Rightarrow> page_system" where
  "call_loadAllThreads net render targetPage sys =
     (if trim (q render) \<noteq> [] then call_doSearch net render targetPage sys
      else call_loadThreadsWithFilters net (tags render) (category render) targetPage sys)"

text \<open>
  The effect on \<^verbatim>\<open>location.search\<close>: it stores the decoded filters and loads page 1, through
  \<^verbatim>\<open>doSearch\<close> or \<^verbatim>\<open>loadAllThreads\<close> of its own render.
\<close>

definition useEffect_location ::
  "bool \<Rightarrow> network \<Rightarrow> URLSearchParams \<Rightarrow> page_system \<Rightarrow> page_system" where
  "useEffect_location loggedIn net params sys =
     (if \<not> loggedIn then sys
      else (let render = view sys;
                sys1 = sys\<lparr>view := store_decoded (decode params) (view sys)\<rparr>
            in if trim (q (decode params)) \<noteq> [] then call_doSearch net render 1 sys1
               else call_loadAllThreads net render 1 sys1))"

text \<open>
  \<^verbatim>\<open>handleClear\<close>: its request \<^verbatim>\<open>/api/threads/?page=1\<close> is the listing request without tags and
  category, and its \<^verbatim>\<open>try\<close> block that of the listing but for \<^verbatim>\<open>setIsSearching\<close>, which it
  calls before the request and not after.
\<close>

definition handleClear :: "network \<Rightarrow> page_system \<Rightarrow> page_system" where
  "handleClear net sys =
     sys\<lparr>view := begin_request
                  ((view sys)\<lparr>q := [], tags := [], category := [], isSearching := False\<rparr>),
         pending := pending sys
                    @ [ClearInFlight (snd (loadThreadsWithFilters_fetch net [] [] 1))]\<rparr>"

definition settle_clear :: "outcome \<Rightarrow> page_state \<Rightarrow> page_state" where
  "settle_clear out st =
     (case out of
        Commit results totalThreads targetPage searching \<Rightarrow>
          st\<lparr>page := targetPage, threads := results, loading := False, total := totalThreads\<rparr>
      | Failed m \<Rightarrow> st\<lparr>error := Some m, loading := False\<rparr>)"

text \<open>\<^verbatim>\<open>Math.ceil(total / PAGE_SIZE)\<close> on integers.\<close>

definition page_count :: "int \<Rightarrow> int" where
  "page_count totalThreads = - ((- totalThreads) div PAGE_SIZE)"

text \<open>
  What happens at the page: the location changes; the user types in the search box,
  presses Enter there or clicks Search (disabled while loading), clicks Clear (shown when a
  filter is set), selects a category, changes the tags in the \<^verbatim>\<open>TagInput\<close> (which starts a
  timer of 100 ms), clicks the tag chip of a thread, clicks Previous or Next (disabled
  while loading and at the first or last page), closes the error alert; a timer fires; a
  response arrives.
\<close>

datatype page_action =
  LocationChanged URLSearchParams network
  | SearchTyped string
  | SearchEnter network
  | SearchClicked network
  | ClearClicked network
  | CategorySelected string network
  | TagsChanged "string list"
  | TimerFired nat network
  | TagChipClicked string network
  | PreviousClicked network
  | NextClicked network
  | ErrorClosed
  | ResponseArrived nat

definition page_system_step :: "bool \<Rightarrow> page_action \<Rightarrow> page_system \<Rightarrow> page_system" where
  "page_system_step loggedIn act sys =
     (let render = view sys
      in case act of
           LocationChanged params net \<Rightarrow> useEffect_location loggedIn net params sys
         | SearchTyped text \<Rightarrow> sys\<lparr>view := render\<lparr>q := text\<rparr>\<rparr>
         | SearchEnter net \<Rightarrow>
             call_doSearchWithFilters net (q render) (tags render) (category render) 1 sys
         | SearchClicked net \<Rightarrow>
             (if loading render then sys
              else call_doSearchWithFilters net (q render) (tags render) (category render) 1
                     sys)
         | ClearClicked net \<Rightarrow>
             (if q render \<noteq> [] \<or> length (tags render) > 0 \<or> category render \<noteq> []
              then handleClear net sys else sys)
         | CategorySelected newCategory net \<Rightarrow>
             (let sys1 = sys\<lparr>view := render\<lparr>category := newCategory\<rparr>\<rparr>
              in if trim (q render) \<noteq> []
                 then call_doSearchWithFilters net (q render) (tags render) newCategory 1 sys1
                 else call_loadThreadsWithFilters net (tags render) newCategory 1 sys1)
         | TagsChanged newTags \<Rightarrow>
             (let sys1 = sys\<lparr>view := render\<lparr>tags := newTags\<rparr>\<rparr>
              in if length newTags > 0 \<or> length (tags render) > 0
                 then sys1\<lparr>pending := pending sys1
                                       @ [Timer (q render) newTags (category render)]\<rparr>
                 else sys1)
         | TimerFired i net \<Rightarrow>
             (if i < length (pending sys) then
                (case pending sys ! i of
                   Timer keyword newTags categoryToUse \<Rightarrow>
                     (let sys1 = sys\<lparr>pending := without i (pending sys)\<rparr>
                      in if trim keyword \<noteq> []
                         then call_doSearchWithFilters net keyword newTags categoryToUse 1 sys1
                         else call_loadThreadsWithFilters net newTags categoryToUse 1 sys1)
                 | _ \<Rightarrow> sys)
              else sys)
         | TagChipClicked name net \<Rightarrow>
             (if name \<noteq> [] \<and> name \<notin> set (tags render) then
                call_loadThreadsWithFilters net (tags render @ [name]) (category render) 1
                  (sys\<lparr>view := render\<lparr>tags := tags render @ [name]\<rparr>\<rparr>)
              else sys)
         | PreviousClicked net \<Rightarrow>
             (if loading render \<or> page render \<le> 1 then sys
              else if isSearching render then call_doSearch net render (page render - 1) sys
              else if length (tags render) > 0 \<or> trim (category render) \<noteq> [] then
                call_loadThreadsWithFilters net (tags render) (category render)
                  (page render - 1) sys
              else call_loadAllThreads net render (page render - 1) sys)
         | NextClicked net \<Rightarrow>
             (if loading render
                 \<or> (case total render of
                       None \<Rightarrow> False
                     | Some totalThreads \<Rightarrow> page render \<ge> page_count totalThreads)
              then sys
              else if isSearching render then call_doSearch net render (page render + 1) sys
              else if length (tags render) > 0 \<or> trim (category render) \<noteq> [] then
                call_loadThreadsWithFilters net (tags render) (category render)
                  (page render + 1) sys
              else call_loadAllThreads net render (page render + 1) sys)
         | ErrorClosed \<Rightarrow> sys\<lparr>view := render\<lparr>error := None\<rparr>\<rparr>
         | ResponseArrived i \<Rightarrow>
             (if i < length (pending sys) then
                (case pending sys ! i of
                   InFlight out \<Rightarrow>
                     sys\<lparr>view := settle out render, pending := without i (pending sys)\<rparr>
                 | ClearInFlight out \<Rightarrow>
                     sys\<lparr>view := settle_clear out render,
                         pending := without i (pending sys)\<rparr>
                 | Timer keyword newTags categoryToUse \<Rightarrow> sys)
              else sys))"

definition page_system_run ::
  "bool \<Rightarrow> page_action list \<Rightarrow> page_system \<Rightarrow> page_system" where
  "page_system_run loggedIn acts sys =
     foldl (\<lambda>s act. page_system_step loggedIn act s) sys acts"

section \<open>Vocabulary of the properties\<close>

text \<open>
  The two composers hold the same composer state.
\<close>

definition same_composer :: "tag_input \<Rightarrow> composer \<Rightarrow> bool" where
  "same_composer st m \<longleftrightarrow>
     isTagging st = isTagging m \<and> tagDraft st = tagDraft m \<and> committed st = committed m"

text \<open>
  What holds of every state the \<^verbatim>\<open>TagInput\<close> reaches: the input element shows the draft, the
  draft is inside the character class, there is no draft outside drafting, and the caret
  is inside the text.
\<close>

definition tag_input_consistent :: "tag_input \<Rightarrow> bool" where
  "tag_input_consistent st \<longleftrightarrow>
     inputValue st = tagDraft st \<and> list_all is_tag_char (tagDraft st)
     \<and> (\<not> isTagging st \<longrightarrow> tagDraft st = []) \<and> caret st \<le> length (inputValue st)"

text \<open>
  A tag that survives \<^verbatim>\<open>join(',')\<close> followed by \<^verbatim>\<open>split(',')\<close> and \<^verbatim>\<open>trim()\<close>: not empty, no
  comma, no white space around it. Every tag a composer commits is one.
\<close>

definition plain_tag :: "string \<Rightarrow> bool" where
  "plain_tag t \<longleftrightarrow> t \<noteq> [] \<and> CHR '','' \<notin> set t \<and> trim t = t"

text \<open>A request under way that, when it is committed, sets a page number of 1 or more.\<close>

definition outcome_page_ok :: "outcome \<Rightarrow> bool" where
  "outcome_page_ok out =
     (case out of Commit results totalThreads targetPage searching \<Rightarrow> 1 \<le> targetPage
      | Failed m \<Rightarrow> True)"

definition pending_ok :: "pending_item \<Rightarrow> bool" where
  "pending_ok item =
     (case item of
        Timer keyword newTags categoryToUse \<Rightarrow> True
      | InFlight out \<Rightarrow> outcome_page_ok out
      | ClearInFlight out \<Rightarrow> outcome_page_ok out)"

definition page_system_ok :: "page_system \<Rightarrow> bool" where
  "page_system_ok sys \<longleftrightarrow> 1 \<le> page (view sys) \<and> list_all pending_ok (pending sys)"

subsection \<open>Example data\<close>

definition thread_a :: ThreadSummary where
  "thread_a = \<lparr>thread_id = 1, title = ''first''\<rparr>"

definition thread_b :: ThreadSummary where
  "thread_b = \<lparr>thread_id = 2, title = ''second''\<rparr>"

definition no_fields :: json_object where
  "no_fields =
     \<lparr>j_results = None, j_count = None, j_error = None, j_threads = None,
      j_total_threads = None\<rparr>"

text \<open>A backend that lists one thread under tag \<open>a\<close> and another under tag \<open>b\<close>.\<close>

definition tag_network :: network where
  "tag_network req =
     (if req = listing_request [''a''] [] 1 then Response True (JArray [thread_a])
      else if req = listing_request [''b''] [] 1 then Response True (JArray [thread_b])
      else Rejected ''offline'')"

text \<open>
  A backend whose search finds two threads of 57 and whose listing endpoint answers with
  the given response.
\<close>

definition search_network :: "response \<Rightarrow> network" where
  "search_network listingRes req =
     (if fst req = ApiSearch then
        Response True
          (JObject (no_fields\<lparr>j_threads := Some [thread_a, thread_b],
                              j_total_threads := Some 57\<rparr>))
      else listingRes)"

text \<open>A page that shows one thread.\<close>

definition showing_b :: page_state where
  "showing_b = initial_page_state\<lparr>threads := Rows [thread_b], total := Some 1\<rparr>"

section \<open>Strings: helper facts\<close>

lemma validChars_ok: "list_all is_tag_char (validChars s)"
  by (simp add: validChars_def list_all_iff)

lemma validChars_id: "list_all is_tag_char s \<Longrightarrow> validChars s = s"
  by (simp add: validChars_def list_all_iff)

lemma validChars_butlast: "list_all is_tag_char s \<Longrightarrow> validChars (butlast s) = butlast s"
  by (rule validChars_id) (auto simp: list_all_iff dest: in_set_butlastD)

lemma hash_not_tag_char: "\<not> is_tag_char (CHR ''#'')"
  by (simp add: is_tag_char_def lowers_def uppers_def)

lemma lower_char_not_upper: "lower_char c \<notin> set uppers"
  by (auto simp add: lower_char_def uppers_def lowers_def split: option.splits if_splits)

lemma lower_char_id: "c \<notin> set uppers \<Longrightarrow> lower_char c = c"
  by (auto simp add: lower_char_def uppers_def lowers_def split: option.splits if_splits)

lemma toLowerCase_idem: "toLowerCase (toLowerCase s) = toLowerCase s"
  by (simp add: toLowerCase_def lower_char_id lower_char_not_upper)

lemma split_on_no_sep: "sep \<notin> set x \<Longrightarrow> split_on sep x = [x]"
  by (induction x) auto

lemma split_on_append_sep:
  "sep \<notin> set x \<Longrightarrow> split_on sep (x @ sep # rest) = x # split_on sep rest"
  by (induction x) auto

lemma split_on_join:
  "xs \<noteq> [] \<Longrightarrow> list_all (\<lambda>x. sep \<notin> set x) xs \<Longrightarrow> split_on sep (join sep xs) = xs"
  by (induction sep xs rule: join.induct) (simp_all add: split_on_no_sep split_on_append_sep)

lemma join_nonempty:
  "xs \<noteq> [] \<Longrightarrow> list_all (\<lambda>x. x \<noteq> []) xs \<Longrightarrow> join sep xs \<noteq> []"
  by (induction sep xs rule: join.induct) simp_all

lemma string_of_int_1: "string_of_int 1 = ''1''"
  by (simp add: string_of_int_def string_of_nat.simps digit_char_def)

lemma trim_Nil: "trim [] = []"
  by (simp add: trim_def)

section \<open>The tag composers: properties\<close>

subsection \<open>The draft stays inside the character class\<close>

lemma handleKeyDown_draft:
  "list_all is_tag_char (tagDraft st)
   \<Longrightarrow> list_all is_tag_char (tagDraft (fst (handleKeyDown d k st)))"
  by (cases k) (simp_all add: handleKeyDown_def Let_def)

lemma set_value_fields:
  "tagDraft (set_value v st) = tagDraft st"
  "isTagging (set_value v st) = isTagging st"
  "committed (set_value v st) = committed st"
  "inputValue (set_value v st) = v"
  "caret (set_value v st) = (if v = inputValue st then caret st else length v)"
  by (simp_all add: set_value_def)

lemma handleInputChange_tagDraft:
  "tagDraft (handleInputChange d st) =
     (if d then tagDraft st
      else if isTagging st then validChars (inputValue st)
      else if CHR ''#'' \<in> set (inputValue st)
        then validChars (last (split_on (CHR ''#'') (inputValue st)))
      else tagDraft st)"
  by (simp add: handleInputChange_def set_value_fields Let_def if_distrib [of tagDraft])

lemma handleInputChange_draft:
  "list_all is_tag_char (tagDraft st)
   \<Longrightarrow> list_all is_tag_char (tagDraft (handleInputChange d st))"
  by (simp add: handleInputChange_tagDraft validChars_ok)

lemma default_action_draft: "tagDraft (fst (default_action k st)) = tagDraft st"
  by (cases k) (simp_all add: default_action_def Let_def)

lemma tag_input_step_draft:
  assumes "list_all is_tag_char (tagDraft st)"
  shows "list_all is_tag_char (tagDraft (tag_input_step d ev st))"
proof (cases d)
  case True
  then show ?thesis using assms by (simp add: tag_input_step_def)
next
  case False
  show ?thesis
  proof (cases ev)
    case (Key k)
    obtain st1 p where h: "handleKeyDown False k st = (st1, p)"
      by (cases "handleKeyDown False k st")
    obtain st2 c where a: "default_action k st1 = (st2, c)"
      by (cases "default_action k st1")
    have 1: "list_all is_tag_char (tagDraft st1)"
      using handleKeyDown_draft [OF assms, of False k] h by simp
    have 2: "list_all is_tag_char (tagDraft st2)"
      using 1 default_action_draft [of k st1] a by simp
    have 3: "list_all is_tag_char (tagDraft (handleInputChange False st2))"
      using 2 by (rule handleInputChange_draft)
    show ?thesis using 1 2 3 Key h a False by (simp add: tag_input_step_def)
  next
    case (Modified k result)
    obtain st1 p where h: "handleKeyDown False k st = (st1, p)"
      by (cases "handleKeyDown False k st")
    have 1: "list_all is_tag_char (tagDraft st1)"
      using handleKeyDown_draft [OF assms, of False k] h by simp
    show ?thesis
      using 1 Modified h False
      by (auto simp: tag_input_step_def handleInputChange_draft split: option.splits)
  next
    case (Paste pasted)
    then show ?thesis using assms
      by (simp add: tag_input_step_def handleInputChange_draft)
  next
    case (Click i)
    then show ?thesis using assms by (simp add: tag_input_step_def)
  qed
qed

lemma tag_input_run_draft:
  "list_all is_tag_char (tagDraft st)
   \<Longrightarrow> list_all is_tag_char (tagDraft (tag_input_run d evs st))"
  unfolding tag_input_run_def
  by (induction evs arbitrary: st) (simp_all add: tag_input_step_draft)

lemma modal_onKeyDown_draft:
  "list_all is_tag_char (tagDraft st)
   \<Longrightarrow> list_all is_tag_char (tagDraft (modal_onKeyDown k st))"
  by (cases k) (auto simp: modal_onKeyDown_def Let_def list_all_iff dest: in_set_butlastD)

lemma modal_step_draft:
  "list_all is_tag_char (tagDraft st) \<Longrightarrow> list_all is_tag_char (tagDraft (modal_step ev st))"
  by (cases ev) (simp_all add: modal_step_def modal_onKeyDown_draft)

lemma modal_run_draft:
  "list_all is_tag_char (tagDraft st) \<Longrightarrow> list_all is_tag_char (tagDraft (modal_run evs st))"
  unfolding modal_run_def
  by (induction evs arbitrary: st) (simp_all add: modal_step_draft)

text \<open>
  C7. After any sequence of input events, from the initial state of either composer, the
  draft buffer consists of characters of the class \<^verbatim>\<open>[a-zA-Z0-9_-]\<close> only; a character key
  outside the class pressed while drafting leaves the whole state as it was. The handlers
  are total functions: no event raises an error.
\<close>

theorem draft_buffer_always_valid:
  "list_all is_tag_char (tagDraft (tag_input_run d evs (initial_tag_input v)))
   \<and> list_all is_tag_char (tagDraft (modal_run evs (initial_composer v)))
   \<and> (isTagging st \<and> \<not> is_tag_char c \<longrightarrow> tag_input_step d (Key (Printable c)) st = st)
   \<and> (isTagging m \<and> \<not> is_tag_char c \<longrightarrow> modal_step (Key (Printable c)) m = m)"
proof -
  have 1: "list_all is_tag_char (tagDraft (tag_input_run d evs (initial_tag_input v)))"
    by (rule tag_input_run_draft) (simp add: initial_tag_input_def)
  have 2: "list_all is_tag_char (tagDraft (modal_run evs (initial_composer v)))"
    by (rule modal_run_draft) (simp add: initial_composer_def)
  have 3: "isTagging st \<and> \<not> is_tag_char c \<longrightarrow> tag_input_step d (Key (Printable c)) st = st"
    by (simp add: tag_input_step_def handleKeyDown_def)
  have 4: "isTagging m \<and> \<not> is_tag_char c \<longrightarrow> modal_step (Key (Printable c)) m = m"
    by (simp add: modal_step_def modal_onKeyDown_def)
  from 1 2 3 4 show ?thesis by blast
qed

theorem draft_buffer_always_valid_witness:
  "list_all is_tag_char
     (tagDraft (tag_input_run False (typed ''#a!b'') (initial_tag_input [])))
   \<and> list_all is_tag_char (tagDraft (modal_run (typed ''#a!b'') (initial_composer [])))
   \<and> isTagging
        \<lparr>isTagging = True, tagDraft = ''a'', committed = [], inputValue = ''a'', caret = 1\<rparr>
   \<and> \<not> is_tag_char (CHR ''!'')
   \<and> tag_input_step False (Key (Printable (CHR ''!'')))
        \<lparr>isTagging = True, tagDraft = ''a'', committed = [], inputValue = ''a'', caret = 1\<rparr>
      = \<lparr>isTagging = True, tagDraft = ''a'', committed = [], inputValue = ''a'', caret = 1\<rparr>
   \<and> modal_step (Key (Printable (CHR ''!'')))
        \<lparr>isTagging = True, tagDraft = ''a'', committed = []\<rparr>
      = \<lparr>isTagging = True, tagDraft = ''a'', committed = []\<rparr>"
  using draft_buffer_always_valid
    [of False "typed ''#a!b''" "[]"
        "\<lparr>isTagging = True, tagDraft = ''a'', committed = [], inputValue = ''a'',
          caret = 1\<rparr>"
        "CHR ''!''" "\<lparr>isTagging = True, tagDraft = ''a'', committed = []\<rparr>"]
  by (simp add: is_tag_char_def lowers_def uppers_def)

subsection \<open>Enter\<close>

lemma tag_input_key_enter:
  "isTagging st \<Longrightarrow> tag_input_step False (Key Enter) st =
     st\<lparr>isTagging := False, tagDraft := [],
        committed := (if toLowerCase (trim (tagDraft st)) \<noteq> []
                        \<and> toLowerCase (trim (tagDraft st)) \<notin> set (committed st)
                      then committed st @ [toLowerCase (trim (tagDraft st))]
                      else committed st),
        inputValue := [], caret := 0\<rparr>"
  by (simp add: tag_input_step_def handleKeyDown_def Let_def)

lemma modal_key_enter:
  "isTagging m \<Longrightarrow> modal_step (Key Enter) m =
     m\<lparr>isTagging := False, tagDraft := [],
        committed := (if toLowerCase (trim (tagDraft m)) \<noteq> []
                        \<and> toLowerCase (trim (tagDraft m)) \<notin> set (committed m)
                      then committed m @ [toLowerCase (trim (tagDraft m))]
                      else committed m)\<rparr>"
  by (simp add: modal_step_def modal_onKeyDown_def Let_def)

lemmas tag_input_eval =
  tag_input_run_def typed_def tag_input_step_def handleKeyDown_def handleInputChange_def
  set_value_def default_action_def initial_tag_input_def is_tag_char_def uppers_def
  lowers_def validChars_def toLowerCase_def lower_char_def trim_def is_space_def Let_def

lemmas modal_eval =
  modal_run_def typed_def modal_step_def modal_onKeyDown_def initial_composer_def
  is_tag_char_def uppers_def lowers_def toLowerCase_def lower_char_def trim_def
  is_space_def Let_def

lemma tag_input_abc_twice:
  "tag_input_run False (typed ''#ABC'' @ [Key Enter] @ typed ''#abc'' @ [Key Enter])
     (initial_tag_input [])
   = \<lparr>isTagging = False, tagDraft = [], committed = [''abc''], inputValue = [], caret = 0\<rparr>"
  by (simp add: tag_input_eval)

lemma modal_abc_twice:
  "modal_run (typed ''#ABC'' @ [Key Enter] @ typed ''#abc'' @ [Key Enter]) (initial_composer [])
   = \<lparr>isTagging = False, tagDraft = [], committed = [''abc'']\<rparr>"
  by (simp add: modal_eval)

lemma tag_input_rust:
  "tag_input_run False (typed ''#rust'' @ [Key Enter]) (initial_tag_input [])
   = \<lparr>isTagging = False, tagDraft = [], committed = [''rust''], inputValue = [], caret = 0\<rparr>"
  by (simp add: tag_input_eval)

lemma modal_rust:
  "modal_run (typed ''#rust'' @ [Key Enter]) (initial_composer [])
   = \<lparr>isTagging = False, tagDraft = [], committed = [''rust'']\<rparr>"
  by (simp add: modal_eval)

text \<open>
  C6. While drafting, Enter appends the trimmed, lowercased draft to the committed tags when
  it is not empty and not yet among them, and leaves them as they are otherwise; either way
  the draft is emptied and the composer is idle again. This holds at both composition
  sites. Typing \<^verbatim>\<open>#ABC\<close>, Enter, \<^verbatim>\<open>#abc\<close>, Enter on no committed tags commits the one tag
  \<^verbatim>\<open>abc\<close>; typing \<^verbatim>\<open>#rust\<close>, Enter commits \<^verbatim>\<open>rust\<close>, empties the draft and ends idle.
\<close>

theorem enter_commits_draft:
  "(isTagging st \<longrightarrow>
      committed (tag_input_step False (Key Enter) st)
        = (if toLowerCase (trim (tagDraft st)) \<noteq> []
              \<and> toLowerCase (trim (tagDraft st)) \<notin> set (committed st)
           then committed st @ [toLowerCase (trim (tagDraft st))] else committed st)
      \<and> tagDraft (tag_input_step False (Key Enter) st) = []
      \<and> inputValue (tag_input_step False (Key Enter) st) = []
      \<and> \<not> isTagging (tag_input_step False (Key Enter) st))
   \<and> (isTagging m \<longrightarrow>
      committed (modal_step (Key Enter) m)
        = (if toLowerCase (trim (tagDraft m)) \<noteq> []
              \<and> toLowerCase (trim (tagDraft m)) \<notin> set (committed m)
           then committed m @ [toLowerCase (trim (tagDraft m))] else committed m)
      \<and> tagDraft (modal_step (Key Enter) m) = []
      \<and> \<not> isTagging (modal_step (Key Enter) m))
   \<and> tag_input_run False (typed ''#ABC'' @ [Key Enter] @ typed ''#abc'' @ [Key Enter])
        (initial_tag_input [])
      = \<lparr>isTagging = False, tagDraft = [], committed = [''abc''], inputValue = [],
         caret = 0\<rparr>
   \<and> modal_run (typed ''#ABC'' @ [Key Enter] @ typed ''#abc'' @ [Key Enter])
        (initial_composer [])
      = \<lparr>isTagging = False, tagDraft = [], committed = [''abc'']\<rparr>
   \<and> tag_input_run False (typed ''#rust'' @ [Key Enter]) (initial_tag_input [])
      = \<lparr>isTagging = False, tagDraft = [], committed = [''rust''], inputValue = [],
         caret = 0\<rparr>
   \<and> modal_run (typed ''#rust'' @ [Key Enter]) (initial_composer [])
      = \<lparr>isTagging = False, tagDraft = [], committed = [''rust'']\<rparr>"
proof -
  have 1: "isTagging st \<longrightarrow>
      committed (tag_input_step False (Key Enter) st)
        = (if toLowerCase (trim (tagDraft st)) \<noteq> []
              \<and> toLowerCase (trim (tagDraft st)) \<notin> set (committed st)
           then committed st @ [toLowerCase (trim (tagDraft st))] else committed st)
      \<and> tagDraft (tag_input_step False (Key Enter) st) = []
      \<and> inputValue (tag_input_step False (Key Enter) st) = []
      \<and> \<not> isTagging (tag_input_step False (Key Enter) st)"
    by (simp add: tag_input_key_enter)
  have 2: "isTagging m \<longrightarrow>
      committed (modal_step (Key Enter) m)
        = (if toLowerCase (trim (tagDraft m)) \<noteq> []
              \<and> toLowerCase (trim (tagDraft m)) \<notin> set (committed m)
           then committed m @ [toLowerCase (trim (tagDraft m))] else committed m)
      \<and> tagDraft (modal_step (Key Enter) m) = []
      \<and> \<not> isTagging (modal_step (Key Enter) m)"
    by (simp add: modal_key_enter)
  from 1 2 tag_input_abc_twice modal_abc_twice tag_input_rust modal_rust
  show ?thesis by blast
qed

theorem enter_commits_draft_witness:
  "isTagging \<lparr>isTagging = True, tagDraft = ''Rust'', committed = [''go''],
              inputValue = ''Rust'', caret = 4\<rparr>
   \<and> tag_input_step False (Key Enter)
        \<lparr>isTagging = True, tagDraft = ''Rust'', committed = [''go''], inputValue = ''Rust'',
         caret = 4\<rparr>
      = \<lparr>isTagging = False, tagDraft = [], committed = [''go'', ''rust''], inputValue = [],
         caret = 0\<rparr>
   \<and> isTagging \<lparr>isTagging = True, tagDraft = ''GO'', committed = [''go'']\<rparr>
   \<and> modal_step (Key Enter) \<lparr>isTagging = True, tagDraft = ''GO'', committed = [''go'']\<rparr>
      = \<lparr>isTagging = False, tagDraft = [], committed = [''go'']\<rparr>"
proof -
  let ?st = "\<lparr>isTagging = True, tagDraft = ''Rust'', committed = [''go''],
               inputValue = ''Rust'', caret = 4\<rparr>"
  let ?m = "\<lparr>isTagging = True, tagDraft = ''GO'', committed = [''go'']\<rparr>"
  have c1: "toLowerCase (trim ''Rust'') = ''rust''"
    by (simp add: toLowerCase_def lower_char_def uppers_def lowers_def trim_def is_space_def)
  have c2: "toLowerCase (trim ''GO'') = ''go''"
    by (simp add: toLowerCase_def lower_char_def uppers_def lowers_def trim_def is_space_def)
  have c0: "caret (tag_input_step False (Key Enter) ?st) = 0"
    by (simp add: tag_input_step_def handleKeyDown_def Let_def)
  have a: "committed (tag_input_step False (Key Enter) ?st) = [''go'', ''rust'']
      \<and> tagDraft (tag_input_step False (Key Enter) ?st) = []
      \<and> inputValue (tag_input_step False (Key Enter) ?st) = []
      \<and> \<not> isTagging (tag_input_step False (Key Enter) ?st)"
    using enter_commits_draft [of ?st ?m] by (simp add: c1)
  have b: "committed (modal_step (Key Enter) ?m) = [''go'']
      \<and> tagDraft (modal_step (Key Enter) ?m) = []
      \<and> \<not> isTagging (modal_step (Key Enter) ?m)"
    using enter_commits_draft [of ?st ?m] by (simp add: c2)
  have e1: "tag_input_step False (Key Enter) ?st
      = \<lparr>isTagging = False, tagDraft = [], committed = [''go'', ''rust''], inputValue = [],
         caret = 0\<rparr>"
    using a c0 by (cases "tag_input_step False (Key Enter) ?st") simp
  have e2: "modal_step (Key Enter) ?m = \<lparr>isTagging = False, tagDraft = [], committed = [''go'']\<rparr>"
    using b by (cases "modal_step (Key Enter) ?m") simp
  show ?thesis using e1 e2 by simp
qed

subsection \<open>The two sites compared\<close>

lemma validChars_insert:
  "list_all is_tag_char v \<Longrightarrow> list_all is_tag_char w
   \<Longrightarrow> validChars (take i v @ w @ drop i v) = take i v @ w @ drop i v"
  by (rule validChars_id) (auto simp: list_all_iff dest: in_set_takeD in_set_dropD)

lemma validChars_remove:
  "list_all is_tag_char v \<Longrightarrow> validChars (take i v @ drop j v) = take i v @ drop j v"
  by (rule validChars_id) (auto simp: list_all_iff dest: in_set_takeD in_set_dropD)

lemma validChars_take: "list_all is_tag_char v \<Longrightarrow> validChars (take n v) = take n v"
  by (rule validChars_id) (auto simp: list_all_iff dest: in_set_takeD)

lemma last_split_hash: "last (split_on (CHR ''#'') ''#'') = []"
  by simp

text \<open>The change handler leaves a consistent state.\<close>

lemma handleInputChange_consistent:
  assumes "\<not> isTagging st \<longrightarrow> tagDraft st = []"
    and "caret st \<le> length (inputValue st)"
  shows "tag_input_consistent (handleInputChange False st)"
proof -
  define vc where "vc = validChars (inputValue st)"
  define lp where "lp = validChars (last (split_on (CHR ''#'') (inputValue st)))"
  have v: "list_all is_tag_char vc" "list_all is_tag_char lp"
    by (simp_all add: vc_def lp_def validChars_ok)
  have h: "handleInputChange False st =
     (if isTagging st then
        (if inputValue st \<noteq> vc then set_value vc (st\<lparr>tagDraft := vc\<rparr>)
         else st\<lparr>tagDraft := vc\<rparr>)
      else if CHR ''#'' \<in> set (inputValue st) then
        set_value lp (st\<lparr>isTagging := True, tagDraft := lp\<rparr>)
      else if inputValue st \<noteq> [] then set_value [] st
      else st)"
    by (simp add: handleInputChange_def Let_def vc_def lp_def)
  show ?thesis
    unfolding h using assms v by (auto simp: tag_input_consistent_def set_value_def)
qed

lemma handleKeyDown_consistent:
  "tag_input_consistent st \<Longrightarrow> tag_input_consistent (fst (handleKeyDown False k st))"
  by (cases k) (auto simp: tag_input_consistent_def handleKeyDown_def Let_def)

lemma handleKeyDown_not_prevented:
  "handleKeyDown False k st = (st1, False) \<Longrightarrow> st1 = st"
  by (cases k) (auto simp: handleKeyDown_def Let_def split: if_splits)

lemma default_action_changed:
  assumes "default_action k st = (st2, True)" and "tag_input_consistent st"
  shows "(\<not> isTagging st2 \<longrightarrow> tagDraft st2 = []) \<and> caret st2 \<le> length (inputValue st2)"
  using assms
  by (cases k) (auto simp: default_action_def tag_input_consistent_def Let_def
      split: if_splits)

lemma default_action_unchanged:
  assumes "default_action k st = (st2, False)" and "tag_input_consistent st"
  shows "tag_input_consistent st2"
  using assms
  by (cases k) (auto simp: default_action_def tag_input_consistent_def Let_def
      split: if_splits)

text \<open>
  Every state the \<^verbatim>\<open>TagInput\<close> reaches is consistent, whatever the events: keys alone or
  modified, pasted text, clicks.
\<close>

lemma tag_input_step_consistent:
  assumes c: "tag_input_consistent st"
  shows "tag_input_consistent (tag_input_step d ev st)"
proof (cases d)
  case True
  then show ?thesis using c by (simp add: tag_input_step_def)
next
  case False
  show ?thesis
  proof (cases ev)
    case (Key k)
    obtain st1 p where h: "handleKeyDown False k st = (st1, p)"
      by (cases "handleKeyDown False k st")
    obtain st2 ch where a: "default_action k st1 = (st2, ch)"
      by (cases "default_action k st1")
    have c1: "tag_input_consistent st1"
      using handleKeyDown_consistent [OF c, of k] h by simp
    show ?thesis
    proof (cases p)
      case True
      then show ?thesis using c1 Key h False by (simp add: tag_input_step_def)
    next
      case np: False
      show ?thesis
      proof (cases ch)
        case True
        then have "tag_input_consistent (handleInputChange False st2)"
          using default_action_changed [of k st1 st2] a c1
          by (intro handleInputChange_consistent) simp_all
        then show ?thesis using Key h a np True False by (simp add: tag_input_step_def)
      next
        case nc: False
        then have "tag_input_consistent st2"
          using default_action_unchanged [of k st1 st2] a c1 by simp
        then show ?thesis using Key h a np nc False by (simp add: tag_input_step_def)
      qed
    qed
  next
    case (Modified k result)
    obtain st1 p where h: "handleKeyDown False k st = (st1, p)"
      by (cases "handleKeyDown False k st")
    have c1: "tag_input_consistent st1"
      using handleKeyDown_consistent [OF c, of k] h by simp
    show ?thesis
    proof (cases result)
      case None
      then show ?thesis using c1 Modified h False by (simp add: tag_input_step_def)
    next
      case (Some r)
      obtain v i where r: "r = (v, i)" by (cases r)
      have x: "tag_input_consistent (st1\<lparr>caret := min i (length v)\<rparr>)"
        if "v = inputValue st1"
        using c1 that by (simp add: tag_input_consistent_def)
      have y: "tag_input_consistent
                 (handleInputChange False (st1\<lparr>inputValue := v, caret := min i (length v)\<rparr>))"
        using c1 by (intro handleInputChange_consistent)
          (simp_all add: tag_input_consistent_def)
      show ?thesis
        using c1 x y Modified h False Some r by (simp add: tag_input_step_def)
    qed
  next
    case (Paste pasted)
    have "tag_input_consistent
            (handleInputChange False
               (st\<lparr>inputValue := take (caret st) (inputValue st) @ pasted
                                    @ drop (caret st) (inputValue st),
                   caret := caret st + length pasted\<rparr>))"
      using c by (intro handleInputChange_consistent)
        (auto simp: tag_input_consistent_def min_def)
    then show ?thesis using c Paste False by (simp add: tag_input_step_def)
  next
    case (Click i)
    then show ?thesis using c False
      by (simp add: tag_input_step_def tag_input_consistent_def)
  qed
qed

lemma tag_input_run_consistent:
  "tag_input_consistent st \<Longrightarrow> tag_input_consistent (tag_input_run d evs st)"
  unfolding tag_input_run_def
  by (induction evs arbitrary: st) (simp_all add: tag_input_step_consistent)

lemma initial_tag_input_consistent: "tag_input_consistent (initial_tag_input v)"
  by (simp add: tag_input_consistent_def initial_tag_input_def)

text \<open>One key pressed alone, the caret being at the end of the text.\<close>

lemma key_agree:
  assumes s: "same_composer st m" and c: "tag_input_consistent st"
    and e: "caret st = length (inputValue st)"
    and k: "\<not> (k = Backspace \<and> isTagging st \<and> tagDraft st = [])"
  shows "same_composer (tag_input_step False (Key k) st) (modal_step (Key k) m)"
proof (cases k)
  case Backspace
  then show ?thesis using s c e k
    by (auto simp: same_composer_def tag_input_consistent_def tag_input_step_def
        handleKeyDown_def modal_step_def modal_onKeyDown_def default_action_def
        handleInputChange_def set_value_def validChars_take butlast_conv_take Let_def)
next
  case (Printable ch)
  show ?thesis
  proof (cases "isTagging st")
    case True
    then show ?thesis using s c e Printable
      by (auto simp: same_composer_def tag_input_consistent_def tag_input_step_def
          handleKeyDown_def modal_step_def modal_onKeyDown_def default_action_def
          handleInputChange_def set_value_def validChars_def list_all_iff
          hash_not_tag_char Let_def)
  next
    case False
    then show ?thesis using s c e Printable
      by (auto simp: same_composer_def tag_input_consistent_def tag_input_step_def
          handleKeyDown_def modal_step_def modal_onKeyDown_def default_action_def
          handleInputChange_def set_value_def validChars_def Let_def)
  qed
qed (use s c e in \<open>auto simp: same_composer_def tag_input_consistent_def tag_input_step_def
        handleKeyDown_def modal_step_def modal_onKeyDown_def default_action_def Let_def\<close>)

lemma key_keeps_caret_at_end:
  assumes c: "tag_input_consistent st" and e: "caret st = length (inputValue st)"
    and k: "k \<noteq> ArrowLeft" "k \<noteq> Home"
  shows "caret (tag_input_step False (Key k) st)
         = length (inputValue (tag_input_step False (Key k) st))"
proof (cases k)
  case Backspace
  then show ?thesis using c e
    by (auto simp: tag_input_consistent_def tag_input_step_def handleKeyDown_def
        default_action_def handleInputChange_def set_value_def validChars_take
        butlast_conv_take Let_def)
next
  case (Printable ch)
  then show ?thesis using c e
    by (auto simp: tag_input_consistent_def tag_input_step_def handleKeyDown_def
        default_action_def handleInputChange_def set_value_def Let_def)
qed (use c e k in \<open>auto simp: tag_input_consistent_def tag_input_step_def
        handleKeyDown_def default_action_def Let_def\<close>)

lemma backspace_differs:
  assumes "same_composer st m" and "isTagging st" and "tagDraft st = []"
  shows "\<not> isTagging (tag_input_step False (Key Backspace) st)
         \<and> isTagging (modal_step (Key Backspace) m)
         \<and> tagDraft (modal_step (Key Backspace) m) = []"
  using assms
  by (auto simp: same_composer_def tag_input_step_def handleKeyDown_def modal_step_def
      modal_onKeyDown_def)

text \<open>
  C8, as stated, fails: Backspace on an empty draft is not the only input on which the two
  sites differ. Pasting \<^verbatim>\<open>#ab\<close> while idle starts the draft \<^verbatim>\<open>ab\<close> in the \<^verbatim>\<open>TagInput\<close> and changes
  nothing in the modal, whose input element has no change handler. After \<^verbatim>\<open>#ab\<close> and
  ArrowLeft both sites hold the draft \<^verbatim>\<open>ab\<close>; the key \<^verbatim>\<open>c\<close> then gives \<^verbatim>\<open>acb\<close> in the \<^verbatim>\<open>TagInput\<close>,
  which reads the element, and \<^verbatim>\<open>abc\<close> in the modal, which appends the key. And the key \<^verbatim>\<open>v\<close>
  with Ctrl held, pasting \<^verbatim>\<open>x\<close>, gives \<^verbatim>\<open>abx\<close> in the \<^verbatim>\<open>TagInput\<close> and \<^verbatim>\<open>abv\<close> in the modal.
\<close>

theorem sites_differ_beyond_backspace:
  "same_composer (initial_tag_input []) (initial_composer [])
   \<and> tag_input_consistent (initial_tag_input [])
   \<and> tagDraft (tag_input_step False (Paste ''#ab'') (initial_tag_input [])) = ''ab''
   \<and> isTagging (tag_input_step False (Paste ''#ab'') (initial_tag_input []))
   \<and> modal_step (Paste ''#ab'') (initial_composer [])
      = \<lparr>isTagging = False, tagDraft = [], committed = []\<rparr>
   \<and> same_composer
        (tag_input_run False (typed ''#ab'' @ [Key ArrowLeft]) (initial_tag_input []))
        (modal_run (typed ''#ab'' @ [Key ArrowLeft]) (initial_composer []))
   \<and> tagDraft (tag_input_run False (typed ''#ab'' @ [Key ArrowLeft, Key (Printable (CHR ''c''))])
                 (initial_tag_input []))
      = ''acb''
   \<and> tagDraft (modal_run (typed ''#ab'' @ [Key ArrowLeft, Key (Printable (CHR ''c''))])
                 (initial_composer []))
      = ''abc''
   \<and> tagDraft (tag_input_run False
                 (typed ''#ab'' @ [Modified (Printable (CHR ''v'')) (Some (''abx'', 3))])
                 (initial_tag_input []))
      = ''abx''
   \<and> tagDraft (modal_run (typed ''#ab'' @ [Modified (Printable (CHR ''v'')) (Some (''abx'', 3))])
                 (initial_composer []))
      = ''abv''"
  by (simp add: same_composer_def tag_input_consistent_def tag_input_eval modal_eval)

text \<open>
  C8, amended. Let the two sites hold the same composer state, the \<^verbatim>\<open>TagInput\<close> being in a
  state it can reach with the caret at the end of its text. On Backspace with an empty
  draft while drafting they differ: the \<^verbatim>\<open>TagInput\<close> goes idle, the modal keeps drafting with
  an empty draft. On every other key pressed alone (a character key, Enter, Escape,
  Backspace otherwise, an arrow, Home, End, Delete, any other named key) they end in the
  same composer state again, and unless the key is ArrowLeft or Home the caret is at the
  end again. They do not agree beyond that: not on pasted text, not on a key with a
  modifier or over a selection, not once the caret has left the end of the text.
\<close>

theorem sites_agree_except_backspace_on_empty:
  assumes "same_composer st m" and "tag_input_consistent st"
    and "caret st = length (inputValue st)"
  shows "(k = Backspace \<and> isTagging st \<and> tagDraft st = [] \<longrightarrow>
            \<not> isTagging (tag_input_step False (Key k) st)
            \<and> isTagging (modal_step (Key k) m)
            \<and> tagDraft (modal_step (Key k) m) = [])
         \<and> (\<not> (k = Backspace \<and> isTagging st \<and> tagDraft st = []) \<longrightarrow>
            same_composer (tag_input_step False (Key k) st) (modal_step (Key k) m))
         \<and> tag_input_consistent (tag_input_step False (Key k) st)
         \<and> (k \<noteq> ArrowLeft \<and> k \<noteq> Home \<longrightarrow>
            caret (tag_input_step False (Key k) st)
              = length (inputValue (tag_input_step False (Key k) st)))"
  using assms key_agree [of st m k] backspace_differs [of st m]
    tag_input_step_consistent [of st False "Key k"] key_keeps_caret_at_end [of st k]
  by blast

theorem sites_agree_except_backspace_on_empty_witness:
  "same_composer
     \<lparr>isTagging = True, tagDraft = [], committed = [''go''], inputValue = [], caret = 0\<rparr>
     \<lparr>isTagging = True, tagDraft = [], committed = [''go'']\<rparr>
   \<and> tag_input_consistent
        \<lparr>isTagging = True, tagDraft = [], committed = [''go''], inputValue = [], caret = 0\<rparr>
   \<and> \<not> isTagging (tag_input_step False (Key Backspace)
        \<lparr>isTagging = True, tagDraft = [], committed = [''go''], inputValue = [], caret = 0\<rparr>)
   \<and> isTagging (modal_step (Key Backspace)
        \<lparr>isTagging = True, tagDraft = [], committed = [''go'']\<rparr>)
   \<and> tagDraft (modal_step (Key Backspace)
        \<lparr>isTagging = True, tagDraft = [], committed = [''go'']\<rparr>) = []
   \<and> same_composer
        (tag_input_step False (Key (Printable (CHR ''x'')))
           \<lparr>isTagging = True, tagDraft = [], committed = [''go''], inputValue = [],
            caret = 0\<rparr>)
        (modal_step (Key (Printable (CHR ''x'')))
           \<lparr>isTagging = True, tagDraft = [], committed = [''go'']\<rparr>)
   \<and> caret (tag_input_step False (Key (Printable (CHR ''x'')))
           \<lparr>isTagging = True, tagDraft = [], committed = [''go''], inputValue = [],
            caret = 0\<rparr>)
      = length (inputValue (tag_input_step False (Key (Printable (CHR ''x'')))
           \<lparr>isTagging = True, tagDraft = [], committed = [''go''], inputValue = [],
            caret = 0\<rparr>))"
proof -
  let ?st = "\<lparr>isTagging = True, tagDraft = [], committed = [''go''], inputValue = [],
               caret = 0\<rparr>"
  let ?m = "\<lparr>isTagging = True, tagDraft = [], committed = [''go'']\<rparr>"
  have s: "same_composer ?st ?m" by (simp add: same_composer_def)
  have c: "tag_input_consistent ?st" by (simp add: tag_input_consistent_def)
  have e: "caret ?st = length (inputValue ?st)" by simp
  have b: "\<not> isTagging (tag_input_step False (Key Backspace) ?st)
           \<and> isTagging (modal_step (Key Backspace) ?m)
           \<and> tagDraft (modal_step (Key Backspace) ?m) = []"
    using sites_agree_except_backspace_on_empty [OF s c e, of Backspace] by simp
  have x: "same_composer (tag_input_step False (Key (Printable (CHR ''x''))) ?st)
                         (modal_step (Key (Printable (CHR ''x''))) ?m)
           \<and> caret (tag_input_step False (Key (Printable (CHR ''x''))) ?st)
              = length (inputValue (tag_input_step False (Key (Printable (CHR ''x''))) ?st))"
    using sites_agree_except_backspace_on_empty [OF s c e, of "Printable (CHR ''x'')"]
    by simp
  show ?thesis using s c b x by simp
qed

subsection \<open>Committed tags stay normalized\<close>

lemma normalized_tags_snoc:
  "normalized_tags ts \<Longrightarrow> toLowerCase t \<notin> set ts
   \<Longrightarrow> normalized_tags (ts @ [toLowerCase t])"
  by (simp add: normalized_tags_def toLowerCase_idem)

lemma handleKeyDown_committed:
  "normalized_tags (committed st)
   \<Longrightarrow> normalized_tags (committed (fst (handleKeyDown d k st)))"
  by (cases k) (auto simp: handleKeyDown_def Let_def normalized_tags_snoc)

lemma handleInputChange_committed: "committed (handleInputChange d st) = committed st"
  by (simp add: handleInputChange_def set_value_fields Let_def if_distrib [of committed])

lemma default_action_committed: "committed (fst (default_action k st)) = committed st"
  by (cases k) (simp_all add: default_action_def Let_def)

lemma tag_input_step_committed:
  assumes n: "normalized_tags (committed st)"
  shows "normalized_tags (committed (tag_input_step d ev st))"
proof (cases d)
  case True
  then show ?thesis using n by (simp add: tag_input_step_def)
next
  case False
  show ?thesis
  proof (cases ev)
    case (Key k)
    obtain st1 p where h: "handleKeyDown False k st = (st1, p)"
      by (cases "handleKeyDown False k st")
    obtain st2 c where a: "default_action k st1 = (st2, c)"
      by (cases "default_action k st1")
    have 1: "normalized_tags (committed st1)"
      using handleKeyDown_committed [OF n, of False k] h by simp
    have 2: "committed st2 = committed st1"
      using default_action_committed [of k st1] a by simp
    show ?thesis
      using n 1 2 Key h a False by (simp add: tag_input_step_def handleInputChange_committed)
  next
    case (Modified k result)
    obtain st1 p where h: "handleKeyDown False k st = (st1, p)"
      by (cases "handleKeyDown False k st")
    have 1: "normalized_tags (committed st1)"
      using handleKeyDown_committed [OF n, of False k] h by simp
    show ?thesis
      using n 1 Modified h False
      by (auto simp: tag_input_step_def handleInputChange_committed split: option.splits)
  next
    case (Paste pasted)
    then show ?thesis using n
      by (simp add: tag_input_step_def handleInputChange_committed)
  next
    case (Click i)
    then show ?thesis using n by (simp add: tag_input_step_def)
  qed
qed

lemma tag_input_run_committed:
  "normalized_tags (committed st) \<Longrightarrow> normalized_tags (committed (tag_input_run d evs st))"
  unfolding tag_input_run_def
  by (induction evs arbitrary: st) (simp_all add: tag_input_step_committed)

lemma modal_onKeyDown_committed:
  "normalized_tags (committed m) \<Longrightarrow> normalized_tags (committed (modal_onKeyDown k m))"
  by (cases k) (auto simp: modal_onKeyDown_def Let_def normalized_tags_snoc)

lemma modal_step_committed:
  "normalized_tags (committed m) \<Longrightarrow> normalized_tags (committed (modal_step ev m))"
  by (cases ev) (simp_all add: modal_step_def modal_onKeyDown_committed)

lemma modal_run_committed:
  "normalized_tags (committed m) \<Longrightarrow> normalized_tags (committed (modal_run evs m))"
  unfolding modal_run_def
  by (induction evs arbitrary: m) (simp_all add: modal_step_committed)

section \<open>The filter codec: properties\<close>

lemma decode_no_params: "decode [] = \<lparr>q = [], tags = [], category = []\<rparr>"
  by (simp add: decode_def get_def or_empty_def)

lemma decode_encode_tags:
  assumes "list_all plain_tag ts"
  shows "(if ts = [] then [] else map trim (split_on (CHR '','') (join (CHR '','') ts))) = ts"
proof (cases "ts = []")
  case True
  then show ?thesis by simp
next
  case False
  have a: "list_all (\<lambda>x. CHR '','' \<notin> set x) ts"
    using assms by (simp add: list_all_iff plain_tag_def)
  have b: "map trim ts = ts"
    using assms by (simp add: list_all_iff plain_tag_def map_idI)
  show ?thesis using False split_on_join [OF False a] b by simp
qed

lemma decode_encode:
  fixes s :: FilterState
  assumes "list_all plain_tag (tags s)"
  shows "decode (encode s) = \<lparr>q = q s, tags = tags s, category = category s\<rparr>"
proof -
  have ne: "tags s \<noteq> [] \<Longrightarrow> join (CHR '','') (tags s) \<noteq> []"
    using assms by (intro join_nonempty) (simp_all add: list_all_iff plain_tag_def)
  have t: "(if tags s = [] then []
            else map trim (split_on (CHR '','') (join (CHR '','') (tags s)))) = tags s"
    using assms by (rule decode_encode_tags)
  have gq: "or_empty (get (encode s) ''q'') = q s"
    by (simp add: encode_def get_def or_empty_def)
  have gc: "or_empty (get (encode s) ''category'') = category s"
    by (simp add: encode_def get_def or_empty_def)
  have gt: "or_empty (get (encode s) ''tag'')
            = (if tags s = [] then [] else join (CHR '','') (tags s))"
    by (simp add: encode_def get_def or_empty_def)
  show ?thesis
    using t ne by (auto simp add: decode_def gq gc gt Let_def)
qed

text \<open>
  C2, as stated, fails against the encoder of the spec. The effect that decodes the URL reads
  no \<^verbatim>\<open>page\<close> parameter and writes no page: a page freshly opened on the encoding of a
  filter of page 2 holds that filter with page 1. And a lowercase tag that holds a comma
  comes back as two tags. Both filters satisfy the invariant.
\<close>

theorem roundtrip_loses_page_and_comma_tags:
  "FilterState_invariant \<lparr>q = [], tags = [], category = [], page = 2\<rparr>
   \<and> encode \<lparr>q = [], tags = [], category = [], page = 2\<rparr> = [(''page'', ''2'')]
   \<and> filter_of (store_decoded
                   (decode (encode \<lparr>q = [], tags = [], category = [], page = 2\<rparr>))
                   initial_page_state)
      = \<lparr>q = [], tags = [], category = [], page = 1\<rparr>
   \<and> filter_of (store_decoded
                   (decode (encode \<lparr>q = [], tags = [], category = [], page = 2\<rparr>))
                   initial_page_state)
      \<noteq> \<lparr>q = [], tags = [], category = [], page = 2\<rparr>
   \<and> FilterState_invariant \<lparr>q = [], tags = [''a,b''], category = [], page = 1\<rparr>
   \<and> filter_of (store_decoded
                   (decode (encode \<lparr>q = [], tags = [''a,b''], category = [], page = 1\<rparr>))
                   initial_page_state)
      = \<lparr>q = [], tags = [''a'', ''b''], category = [], page = 1\<rparr>
   \<and> filter_of (store_decoded
                   (decode (encode \<lparr>q = [], tags = [''a,b''], category = [], page = 1\<rparr>))
                   initial_page_state)
      \<noteq> \<lparr>q = [], tags = [''a,b''], category = [], page = 1\<rparr>"
  by (simp add: FilterState_invariant_def normalized_tags_def toLowerCase_def lower_char_def
      uppers_def lowers_def trim_def is_space_def decode_def encode_def get_def or_empty_def
      string_of_int_def string_of_nat.simps digit_char_def Let_def filter_of_def
      store_decoded_def initial_page_state_def)

text \<open>
  C2, amended. For every filter whose tags are not empty, hold no comma and have no white
  space around them (as every tag a composer commits), decoding the encoding gives back its
  keyword, its tags and its category; stored into a page state, they replace the keyword,
  tags and category there and nothing else. The page number is not carried: the page
  parameter is never read, and the filter the state then holds has the page number the
  state had before.
\<close>

theorem roundtrip_except_page:
  fixes s :: FilterState
  assumes "list_all plain_tag (tags s)"
  shows "decode (encode s) = \<lparr>q = q s, tags = tags s, category = category s\<rparr>
     \<and> store_decoded (decode (encode s)) st
        = st\<lparr>q := q s, tags := tags s, category := category s\<rparr>
     \<and> filter_of (store_decoded (decode (encode s)) st) = s\<lparr>page := page st\<rparr>"
  using decode_encode [OF assms] by (simp add: store_decoded_def filter_of_def)

theorem roundtrip_except_page_witness:
  "list_all plain_tag
     (tags \<lparr>q = ''exam'', tags = [''cs101'', ''final-2024''], category = ''3'', page = 1\<rparr>)
   \<and> encode \<lparr>q = ''exam'', tags = [''cs101'', ''final-2024''], category = ''3'', page = 1\<rparr>
      = [(''q'', ''exam''), (''tag'', ''cs101,final-2024''), (''category'', ''3'')]
   \<and> decode [(''q'', ''exam''), (''tag'', ''cs101,final-2024''), (''category'', ''3'')]
      = \<lparr>q = ''exam'', tags = [''cs101'', ''final-2024''], category = ''3''\<rparr>
   \<and> filter_of (store_decoded
        (decode (encode \<lparr>q = ''exam'', tags = [''cs101'', ''final-2024''], category = ''3'',
                         page = 1\<rparr>))
        initial_page_state)
      = \<lparr>q = ''exam'', tags = [''cs101'', ''final-2024''], category = ''3'', page = 1\<rparr>
   \<and> page (store_decoded
        (decode (encode \<lparr>q = ''exam'', tags = [''cs101'', ''final-2024''], category = ''3'',
                         page = 5\<rparr>))
        showing_b)
      = page showing_b"
proof -
  let ?s = "\<lparr>q = ''exam'', tags = [''cs101'', ''final-2024''], category = ''3'', page = 1\<rparr>"
  let ?t = "\<lparr>q = ''exam'', tags = [''cs101'', ''final-2024''], category = ''3'', page = 5\<rparr>"
  have p: "list_all plain_tag (tags ?s)"
    by (simp add: plain_tag_def trim_def is_space_def)
  have p': "list_all plain_tag (tags ?t)"
    using p by simp
  have e: "encode ?s = [(''q'', ''exam''), (''tag'', ''cs101,final-2024''), (''category'', ''3'')]"
    by (simp add: encode_def)
  have i: "page initial_page_state = 1"
    by (simp add: initial_page_state_def)
  have 1: "decode (encode ?s)
           = \<lparr>q = ''exam'', tags = [''cs101'', ''final-2024''], category = ''3''\<rparr>"
    using roundtrip_except_page [OF p, of initial_page_state, THEN conjunct1] by simp
  have 3: "filter_of (store_decoded (decode (encode ?s)) initial_page_state) = ?s"
    using roundtrip_except_page [OF p, of initial_page_state, THEN conjunct2, THEN conjunct2] i
    by simp
  have 2: "page (store_decoded (decode (encode ?t)) showing_b) = page showing_b"
    using roundtrip_except_page [OF p', of showing_b, THEN conjunct2, THEN conjunct1]
    by simp
  show ?thesis using p e 1 2 3 by simp
qed

text \<open>
  C3. The part of the claim on empty entries fails on the code: decoding \<^verbatim>\<open>?tag=a, ,b\<close> trims
  the entries and keeps the empty one, so the tags are \<^verbatim>\<open>a\<close>, the empty string and \<^verbatim>\<open>b\<close>.
\<close>

theorem decode_keeps_empty_tag_entry:
  "tags (decode [(''tag'', ''a, ,b'')]) = [''a'', [], ''b'']"
  by (simp add: decode_def get_def or_empty_def trim_def is_space_def Let_def)

section \<open>The discovery controller: properties\<close>

lemma project_id: "project t = t"
  by (cases t) (simp add: project_def)

lemma map_project: "map project ts = ts"
  by (induction ts) (simp_all add: project_id)


lemma ResultPage_settle_Failed: "ResultPage (settle (Failed m) st) = ResultPage st"
  by (simp add: ResultPage_def settle_def)

lemma ResultPage_begin_request: "ResultPage (begin_request st) = ResultPage st"
  by (simp add: ResultPage_def begin_request_def)

lemma error_settle_begin:
  "error (settle out (begin_request st)) = (case out of Commit r t p s \<Rightarrow> None | Failed m \<Rightarrow> Some m)"
  by (cases out) (simp_all add: settle_def begin_request_def)

lemma ResultPage_settle_begin:
  "ResultPage (settle out (begin_request st))
   = (case out of Commit r t p s \<Rightarrow> (r, t, p) | Failed m \<Rightarrow> ResultPage st)"
  by (cases out) (simp_all add: settle_def begin_request_def ResultPage_def)


subsection \<open>Overlapping requests\<close>



subsection \<open>Resolving a keyword\<close>

lemma search_fetch:
  assumes "trim keyword \<noteq> []"
    and "net (search_request keyword p) = Response True (JObject ob)"
    and "j_threads ob = Some hits"
  shows "doSearchWithFilters_fetch net keyword tgs cat p =
     (if hits \<noteq> [] \<and> (tgs \<noteq> [] \<or> trim cat \<noteq> []) then
        ([search_request keyword p, filter_request (map thread_id hits) tgs cat],
         intersect_hits (net (filter_request (map thread_id hits) tgs cat)) hits
           (Some (total_or_0 (j_total_threads ob))) p)
      else ([search_request keyword p],
            Commit (Rows hits) (Some (total_or_0 (j_total_threads ob))) p True))"
  using assms by (auto simp: doSearchWithFilters_fetch_def Let_def map_project)

lemma search_fetch_first:
  "trim keyword \<noteq> []
   \<Longrightarrow> hd (fst (doSearchWithFilters_fetch net keyword tgs cat p)) = search_request keyword p"
  by (auto simp: doSearchWithFilters_fetch_def Let_def
      split: response.splits json.splits option.splits)

lemma doSearchWithFilters_keyword:
  "trim keyword \<noteq> [] \<Longrightarrow>
   doSearchWithFilters net keyword tgs cat p st =
     (fst (doSearchWithFilters_fetch net keyword tgs cat p),
      settle (snd (doSearchWithFilters_fetch net keyword tgs cat p)) (begin_request st))"
  by (simp add: doSearchWithFilters_def split: prod.splits)


lemma intersect_hits_rows:
  "r = Response True (JArray rows)
     \<or> (\<exists>fob. r = Response True (JObject fob) \<and> j_results fob = Some rows)
   \<Longrightarrow> intersect_hits r hits tot p = Commit (Rows rows) tot p True"
  by (auto simp: intersect_hits_def map_project)

lemma intersect_hits_not_ok:
  "intersect_hits (Response False body) hits tot p = Commit (Rows hits) tot p True"
  by (simp add: intersect_hits_def)

lemma intersect_hits_failed:
  "r = Rejected m \<or> r = Response True JNull
     \<or> (\<exists>fob. r = Response True (JObject fob) \<and> j_results fob = None)
   \<Longrightarrow> \<exists>msg. intersect_hits r hits tot p = Failed msg"
  by (auto simp: intersect_hits_def search_failed_def)

lemma string_of_int_20: "string_of_int 20 = ''20''"
  by (simp add: string_of_int_def string_of_nat.simps digit_char_def)

lemma string_of_int_2: "string_of_int 2 = ''2''"
  by (simp add: string_of_int_def string_of_nat.simps digit_char_def)

lemma search_network_search:
  "search_network r (search_request keyword p)
   = Response True (JObject (no_fields\<lparr>j_threads := Some [thread_a, thread_b],
                                        j_total_threads := Some 57\<rparr>))"
  by (simp add: search_network_def search_request_def)

lemma search_network_filter: "search_network r (filter_request ids tgs cat) = r"
  by (simp add: search_network_def filter_request_def)

lemma trim_x: "trim ''x'' = ''x''"
  by (simp add: trim_def is_space_def)

lemma search_network_fetch:
  assumes "trim keyword \<noteq> []"
  shows "doSearchWithFilters_fetch (search_network r) keyword tgs cat p =
     (if tgs \<noteq> [] \<or> trim cat \<noteq> [] then
        ([search_request keyword p, filter_request [1, 2] tgs cat],
         intersect_hits r [thread_a, thread_b] (Some 57) p)
      else ([search_request keyword p], Commit (Rows [thread_a, thread_b]) (Some 57) p True))"
proof -
  have t: "j_threads (no_fields\<lparr>j_threads := Some [thread_a, thread_b],
                                 j_total_threads := Some 57\<rparr>)
           = Some [thread_a, thread_b]"
    by simp
  show ?thesis
    using search_fetch [where net = "search_network r", OF assms search_network_search t,
        of tgs cat]
    by (simp add: search_network_filter total_or_0_def thread_a_def thread_b_def)
qed

text \<open>
  C5, as stated, fails: with a tag set and two hits the second request is issued, but when
  it is answered non-2xx its output is not committed in place of the hits: the raw hits
  are, and no error is set.
\<close>

theorem intersection_not_ok_commits_raw_hits:
  "fst (doSearchWithFilters
          (search_network (Response False (JObject (no_fields\<lparr>j_error := Some ''no''\<rparr>))))
          ''x'' [''a''] [] 1 initial_page_state)
     = [(ApiSearch, [(''q'', ''x''), (''type'', ''threads''), (''sort'', ''relevance''),
                     (''page'', ''1''), (''limit'', ''20'')]),
        (ApiThreads, [(''ids'', ''1,2''), (''tag'', ''a'')])]
   \<and> threads (snd (doSearchWithFilters
          (search_network (Response False (JObject (no_fields\<lparr>j_error := Some ''no''\<rparr>))))
          ''x'' [''a''] [] 1 initial_page_state))
     = Rows [thread_a, thread_b]
   \<and> error (snd (doSearchWithFilters
          (search_network (Response False (JObject (no_fields\<lparr>j_error := Some ''no''\<rparr>))))
          ''x'' [''a''] [] 1 initial_page_state))
     = None"
  by (simp add: doSearchWithFilters_keyword trim_x search_network_fetch intersect_hits_not_ok
      settle_def begin_request_def search_request_def filter_request_def PAGE_SIZE_def
      string_of_int_1 string_of_int_2 string_of_int_20 trim_Nil)

text \<open>
  C5, amended. Resolving with a keyword that is not empty once trimmed first issues the
  search request: \<^verbatim>\<open>q\<close> the keyword, \<^verbatim>\<open>type=threads\<close>, \<^verbatim>\<open>sort=relevance\<close>, the page and
  \<^verbatim>\<open>limit=20\<close>, no tag and no category. When the search answers with hits, a second request
  is issued if and only if there is a hit and a tag or a category is set; it is the listing
  request with exactly \<^verbatim>\<open>ids\<close> the ids of the hits, comma-joined in their order, \<^verbatim>\<open>tag\<close> the
  tags comma-joined when there are tags, and \<^verbatim>\<open>category\<close> the trimmed category when there is
  one. When that request is answered 2xx with rows, the rows are committed in place of the
  hits; when it is answered non-2xx, the raw hits are committed; when it is rejected or
  answered 2xx without an array, nothing is committed and an error is set. With no tag and
  no category, or with no hit, the search request is the only one and the raw hits are
  committed.
\<close>

theorem keyword_search_then_intersection:
  assumes "trim keyword \<noteq> []"
  shows "hd (fst (doSearchWithFilters net keyword tgs cat p st)) = search_request keyword p
     \<and> search_request keyword p
        = (ApiSearch,
           [(''q'', keyword), (''type'', ''threads''), (''sort'', ''relevance'')]
           @ (if p \<noteq> 0 then [(''page'', string_of_int p)] else [])
           @ [(''limit'', ''20'')])
     \<and> filter_request ids tgs cat
        = (ApiThreads,
           [(''ids'', join (CHR '','') (map string_of_int ids))]
           @ (if tgs \<noteq> [] then [(''tag'', join (CHR '','') tgs)] else [])
           @ (if trim cat \<noteq> [] then [(''category'', trim cat)] else []))
     \<and> (net (search_request keyword p) = Response True (JObject ob)
          \<and> j_threads ob = Some hits \<longrightarrow>
        fst (doSearchWithFilters net keyword tgs cat p st)
          = (if hits \<noteq> [] \<and> (tgs \<noteq> [] \<or> trim cat \<noteq> [])
             then [search_request keyword p, filter_request (map thread_id hits) tgs cat]
             else [search_request keyword p])
        \<and> (hits \<noteq> [] \<and> (tgs \<noteq> [] \<or> trim cat \<noteq> [])
             \<and> (net (filter_request (map thread_id hits) tgs cat) = Response True (JArray rows)
                \<or> (\<exists>fob. net (filter_request (map thread_id hits) tgs cat)
                            = Response True (JObject fob) \<and> j_results fob = Some rows))
            \<longrightarrow> threads (snd (doSearchWithFilters net keyword tgs cat p st)) = Rows rows
                \<and> error (snd (doSearchWithFilters net keyword tgs cat p st)) = None)
        \<and> (hits \<noteq> [] \<and> (tgs \<noteq> [] \<or> trim cat \<noteq> [])
             \<and> net (filter_request (map thread_id hits) tgs cat) = Response False body
            \<longrightarrow> threads (snd (doSearchWithFilters net keyword tgs cat p st)) = Rows hits
                \<and> error (snd (doSearchWithFilters net keyword tgs cat p st)) = None)
        \<and> (hits \<noteq> [] \<and> (tgs \<noteq> [] \<or> trim cat \<noteq> [])
             \<and> (net (filter_request (map thread_id hits) tgs cat) = Rejected m
                \<or> net (filter_request (map thread_id hits) tgs cat) = Response True JNull
                \<or> (\<exists>fob. net (filter_request (map thread_id hits) tgs cat)
                            = Response True (JObject fob) \<and> j_results fob = None))
            \<longrightarrow> ResultPage (snd (doSearchWithFilters net keyword tgs cat p st))
                  = ResultPage st
                \<and> error (snd (doSearchWithFilters net keyword tgs cat p st)) \<noteq> None)
        \<and> (\<not> (hits \<noteq> [] \<and> (tgs \<noteq> [] \<or> trim cat \<noteq> []))
            \<longrightarrow> threads (snd (doSearchWithFilters net keyword tgs cat p st)) = Rows hits
                \<and> error (snd (doSearchWithFilters net keyword tgs cat p st)) = None))"
    (is "?A \<and> ?B \<and> ?C \<and> (?H \<longrightarrow> ?D \<and> ?E \<and> ?F \<and> ?G \<and> ?I)")
proof -
  let ?R = "doSearchWithFilters net keyword tgs cat p st"
  let ?freq = "filter_request (map thread_id hits) tgs cat"
  let ?filt = "hits \<noteq> [] \<and> (tgs \<noteq> [] \<or> trim cat \<noteq> [])"
  have 1: "hd (fst ?R) = search_request keyword p"
    using assms by (simp add: doSearchWithFilters_keyword search_fetch_first)
  have 2: "search_request keyword p
        = (ApiSearch,
           [(''q'', keyword), (''type'', ''threads''), (''sort'', ''relevance'')]
           @ (if p \<noteq> 0 then [(''page'', string_of_int p)] else [])
           @ [(''limit'', ''20'')])"
    by (simp add: search_request_def PAGE_SIZE_def string_of_int_20)
  have 3: "filter_request ids tgs cat
        = (ApiThreads,
           [(''ids'', join (CHR '','') (map string_of_int ids))]
           @ (if tgs \<noteq> [] then [(''tag'', join (CHR '','') tgs)] else [])
           @ (if trim cat \<noteq> [] then [(''category'', trim cat)] else []))"
    by (simp add: filter_request_def)
  have 4: "fst ?R = (if ?filt then [search_request keyword p, ?freq]
                     else [search_request keyword p])"
    if "net (search_request keyword p) = Response True (JObject ob)" "j_threads ob = Some hits"
    using assms that by (simp add: doSearchWithFilters_keyword search_fetch)
  have 5: "threads (snd ?R) = Rows rows \<and> error (snd ?R) = None"
    if "net (search_request keyword p) = Response True (JObject ob)" "j_threads ob = Some hits"
      "?filt"
      "net ?freq = Response True (JArray rows)
        \<or> (\<exists>fob. net ?freq = Response True (JObject fob) \<and> j_results fob = Some rows)"
    using assms that(1,2,3) intersect_hits_rows [OF that(4)]
    by (simp add: doSearchWithFilters_keyword search_fetch settle_def begin_request_def)
  have 6: "threads (snd ?R) = Rows hits \<and> error (snd ?R) = None"
    if "net (search_request keyword p) = Response True (JObject ob)" "j_threads ob = Some hits"
      "?filt" "net ?freq = Response False body"
    using assms that
    by (simp add: doSearchWithFilters_keyword search_fetch intersect_hits_not_ok settle_def
        begin_request_def)
  have 7: "ResultPage (snd ?R) = ResultPage st \<and> error (snd ?R) \<noteq> None"
    if "net (search_request keyword p) = Response True (JObject ob)" "j_threads ob = Some hits"
      "?filt"
      "net ?freq = Rejected m \<or> net ?freq = Response True JNull
        \<or> (\<exists>fob. net ?freq = Response True (JObject fob) \<and> j_results fob = None)"
  proof -
    from intersect_hits_failed [OF that(4)] obtain msg
      where "intersect_hits (net ?freq) hits (Some (total_or_0 (j_total_threads ob))) p
             = Failed msg"
      by blast
    then show ?thesis
      using assms that(1,2,3)
      by (simp add: doSearchWithFilters_keyword search_fetch ResultPage_settle_begin
          error_settle_begin)
  qed
  have 8: "threads (snd ?R) = Rows hits \<and> error (snd ?R) = None"
    if "net (search_request keyword p) = Response True (JObject ob)" "j_threads ob = Some hits"
      "\<not> ?filt"
    using assms that
    by (auto simp add: doSearchWithFilters_keyword search_fetch settle_def begin_request_def)
  have h: "?H \<longrightarrow> ?D \<and> ?E \<and> ?F \<and> ?G \<and> ?I"
  proof (intro impI)
    assume H: ?H
    then have s: "net (search_request keyword p) = Response True (JObject ob)"
      and t: "j_threads ob = Some hits"
      by simp_all
    have d: ?D using 4 [OF s t] .
    have e: ?E using 5 [OF s t] by blast
    have f: ?F using 6 [OF s t] by blast
    have g: ?G using 7 [OF s t] by blast
    have i: ?I using 8 [OF s t] by blast
    from d e f g i show "?D \<and> ?E \<and> ?F \<and> ?G \<and> ?I" by (intro conjI)
  qed
  from 1 2 3 h show ?thesis by (intro conjI)
qed

theorem keyword_search_then_intersection_witness:
  "trim ''x'' \<noteq> []
   \<and> fst (doSearchWithFilters (search_network (Response True (JArray [thread_b])))
            ''x'' [''a'', ''b''] '' 3 '' 1 initial_page_state)
      = [(ApiSearch, [(''q'', ''x''), (''type'', ''threads''), (''sort'', ''relevance''),
                      (''page'', ''1''), (''limit'', ''20'')]),
         (ApiThreads, [(''ids'', ''1,2''), (''tag'', ''a,b''), (''category'', ''3'')])]
   \<and> threads (snd (doSearchWithFilters (search_network (Response True (JArray [thread_b])))
                     ''x'' [''a'', ''b''] '' 3 '' 1 initial_page_state))
      = Rows [thread_b]
   \<and> threads (snd (doSearchWithFilters (search_network (Response False JNull))
                     ''x'' [''a'', ''b''] '' 3 '' 1 initial_page_state))
      = Rows [thread_a, thread_b]
   \<and> error (snd (doSearchWithFilters (search_network (Rejected ''offline''))
                   ''x'' [''a'', ''b''] '' 3 '' 1 initial_page_state))
      \<noteq> None
   \<and> fst (doSearchWithFilters (search_network (Response True (JArray [thread_b])))
            ''x'' [] [] 1 initial_page_state)
      = [(ApiSearch, [(''q'', ''x''), (''type'', ''threads''), (''sort'', ''relevance''),
                      (''page'', ''1''), (''limit'', ''20'')])]
   \<and> threads (snd (doSearchWithFilters (search_network (Response True (JArray [thread_b])))
                     ''x'' [] [] 1 initial_page_state))
      = Rows [thread_a, thread_b]"
proof -
  let ?ob = "no_fields\<lparr>j_threads := Some [thread_a, thread_b], j_total_threads := Some 57\<rparr>"
  have k: "trim ''x'' \<noteq> []" by (simp add: trim_x)
  have c: "trim '' 3 '' = ''3''" by (simp add: trim_def is_space_def)
  have t: "j_threads ?ob = Some [thread_a, thread_b]" by simp
  have ids: "map thread_id [thread_a, thread_b] = [1, 2]"
    by (simp add: thread_a_def thread_b_def)
  have h: "[thread_a, thread_b] \<noteq> []" by simp
  have a: "fst (doSearchWithFilters (search_network (Response True (JArray [thread_b])))
                  ''x'' [''a'', ''b''] '' 3 '' 1 initial_page_state)
             = [(ApiSearch, [(''q'', ''x''), (''type'', ''threads''), (''sort'', ''relevance''),
                             (''page'', ''1''), (''limit'', ''20'')]),
                (ApiThreads, [(''ids'', ''1,2''), (''tag'', ''a,b''), (''category'', ''3'')])]
           \<and> threads (snd (doSearchWithFilters
                  (search_network (Response True (JArray [thread_b])))
                  ''x'' [''a'', ''b''] '' 3 '' 1 initial_page_state))
             = Rows [thread_b]"
    using keyword_search_then_intersection
      [OF k, where net = "search_network (Response True (JArray [thread_b]))"
         and tgs = "[''a'', ''b'']" and cat = "'' 3 ''" and p = 1
         and st = initial_page_state and ob = ?ob and hits = "[thread_a, thread_b]"
         and rows = "[thread_b]" and ids = "[1, 2]"]
      t ids c
    by (simp add: search_network_search search_network_filter string_of_int_1
        string_of_int_2)
  have b: "threads (snd (doSearchWithFilters (search_network (Response False JNull))
                  ''x'' [''a'', ''b''] '' 3 '' 1 initial_page_state))
             = Rows [thread_a, thread_b]"
    using keyword_search_then_intersection
      [OF k, where net = "search_network (Response False JNull)"
         and tgs = "[''a'', ''b'']" and cat = "'' 3 ''" and p = 1
         and st = initial_page_state and ob = ?ob and hits = "[thread_a, thread_b]"
         and body = JNull]
      t ids c
    by (simp add: search_network_search search_network_filter)
  have r: "error (snd (doSearchWithFilters (search_network (Rejected ''offline''))
                  ''x'' [''a'', ''b''] '' 3 '' 1 initial_page_state))
             \<noteq> None"
    using keyword_search_then_intersection
      [OF k, where net = "search_network (Rejected ''offline'')"
         and tgs = "[''a'', ''b'']" and cat = "'' 3 ''" and p = 1
         and st = initial_page_state and ob = ?ob and hits = "[thread_a, thread_b]"
         and m = "''offline''"]
      t ids c
    by (simp add: search_network_search search_network_filter)
  have n: "fst (doSearchWithFilters (search_network (Response True (JArray [thread_b])))
                  ''x'' [] [] 1 initial_page_state)
             = [(ApiSearch, [(''q'', ''x''), (''type'', ''threads''), (''sort'', ''relevance''),
                             (''page'', ''1''), (''limit'', ''20'')])]
           \<and> threads (snd (doSearchWithFilters
                  (search_network (Response True (JArray [thread_b])))
                  ''x'' [] [] 1 initial_page_state))
             = Rows [thread_a, thread_b]"
    using keyword_search_then_intersection
      [OF k, where net = "search_network (Response True (JArray [thread_b]))"
         and tgs = "[]" and cat = "[]" and p = 1
         and st = initial_page_state and ob = ?ob and hits = "[thread_a, thread_b]"]
      t
    by (simp add: search_network_search string_of_int_1 trim_Nil)
  show ?thesis using k a b r n by simp
qed

subsection \<open>Failures\<close>









subsection \<open>The total count of a filtered keyword search\<close>

lemma intersect_hits_total:
  "intersect_hits r hits tot p = Commit rows tot' p' s \<Longrightarrow> tot' = tot"
  by (auto simp: intersect_hits_def search_failed_def
      split: response.splits json.splits option.splits if_splits)

text \<open>
  C10. After a keyword search with a tag or category filter that ends without an error,
  the committed total count is the \<^verbatim>\<open>total_threads\<close> of the search answer, 0 when the field
  is absent (or 0), whatever the intersection request returned. With a search that reports
  57 threads and an intersection that leaves one thread, the page shows one item and a
  total of 57.
\<close>

theorem total_is_the_unfiltered_search_total:
  assumes "trim keyword \<noteq> []"
    and "net (search_request keyword p) = Response True (JObject ob)"
    and "j_threads ob = Some hits"
    and "tgs \<noteq> [] \<or> trim cat \<noteq> []"
    and "error (snd (doSearchWithFilters net keyword tgs cat p st)) = None"
  shows "total (snd (doSearchWithFilters net keyword tgs cat p st))
           = Some (case j_total_threads ob of None \<Rightarrow> 0 | Some n \<Rightarrow> n)
     \<and> threads (snd (doSearchWithFilters (search_network (Response True (JArray [thread_b])))
                       ''x'' [''a''] [] 1 initial_page_state))
        = Rows [thread_b]
     \<and> total (snd (doSearchWithFilters (search_network (Response True (JArray [thread_b])))
                     ''x'' [''a''] [] 1 initial_page_state))
        = Some 57"
proof -
  let ?out = "snd (doSearchWithFilters_fetch net keyword tgs cat p)"
  have st': "snd (doSearchWithFilters net keyword tgs cat p st) = settle ?out (begin_request st)"
    using assms(1) by (simp add: doSearchWithFilters_keyword)
  have "error (settle ?out (begin_request st)) = None"
    using assms(5) st' by simp
  then obtain rows tot' p' s where c: "?out = Commit rows tot' p' s"
    by (cases ?out) (simp_all add: error_settle_begin)
  have "tot' = Some (total_or_0 (j_total_threads ob))"
  proof (cases "hits \<noteq> []")
    case True
    then show ?thesis
      using c assms(4) search_fetch [where net = net, OF assms(1,2,3), of tgs cat]
        intersect_hits_total by auto
  next
    case False
    then show ?thesis
      using c search_fetch [where net = net, OF assms(1,2,3), of tgs cat] by simp
  qed
  then have 1: "total (snd (doSearchWithFilters net keyword tgs cat p st))
           = Some (case j_total_threads ob of None \<Rightarrow> 0 | Some n \<Rightarrow> n)"
    using st' c by (simp add: settle_def total_or_0_def)
  have 2: "threads (snd (doSearchWithFilters (search_network (Response True (JArray [thread_b])))
                       ''x'' [''a''] [] 1 initial_page_state))
        = Rows [thread_b]
     \<and> total (snd (doSearchWithFilters (search_network (Response True (JArray [thread_b])))
                     ''x'' [''a''] [] 1 initial_page_state))
        = Some 57"
    by (simp add: doSearchWithFilters_keyword trim_x search_network_fetch intersect_hits_def
        project_id settle_def)
  from 1 2 show ?thesis by simp
qed

theorem total_is_the_unfiltered_search_total_witness:
  "trim ''x'' \<noteq> []
   \<and> search_network (Response True (JArray [thread_b])) (search_request ''x'' 1)
      = Response True (JObject (no_fields\<lparr>j_threads := Some [thread_a, thread_b],
                                           j_total_threads := Some 57\<rparr>))
   \<and> error (snd (doSearchWithFilters (search_network (Response True (JArray [thread_b])))
                   ''x'' [''a''] [] 1 showing_b)) = None
   \<and> threads (snd (doSearchWithFilters (search_network (Response True (JArray [thread_b])))
                     ''x'' [''a''] [] 1 showing_b))
      = Rows [thread_b]
   \<and> total (snd (doSearchWithFilters (search_network (Response True (JArray [thread_b])))
                   ''x'' [''a''] [] 1 showing_b))
      = Some 57"
proof -
  let ?net = "search_network (Response True (JArray [thread_b]))"
  let ?ob = "no_fields\<lparr>j_threads := Some [thread_a, thread_b], j_total_threads := Some 57\<rparr>"
  have k: "trim ''x'' \<noteq> []" by (simp add: trim_x)
  have s: "?net (search_request ''x'' 1) = Response True (JObject ?ob)"
    by (rule search_network_search)
  have t: "j_threads ?ob = Some [thread_a, thread_b]" by simp
  have g: "[''a''] \<noteq> [] \<or> trim [] \<noteq> []" by simp
  have e: "error (snd (doSearchWithFilters ?net ''x'' [''a''] [] 1 showing_b)) = None"
    by (simp add: doSearchWithFilters_keyword trim_x search_network_fetch intersect_hits_def
        settle_def begin_request_def)
  have r: "threads (snd (doSearchWithFilters ?net ''x'' [''a''] [] 1 showing_b))
           = Rows [thread_b]"
    by (simp add: doSearchWithFilters_keyword trim_x search_network_fetch intersect_hits_def
        project_id settle_def)
  have "total (snd (doSearchWithFilters ?net ''x'' [''a''] [] 1 showing_b)) = Some 57"
    using total_is_the_unfiltered_search_total [where net = ?net, OF k s t g e] by simp
  then show ?thesis using k s e r by simp
qed

section \<open>The invariant of the filter\<close>

subsection \<open>The page number\<close>

lemma intersect_hits_page:
  "1 \<le> p \<Longrightarrow> outcome_page_ok (intersect_hits r hits tot p)"
  by (auto simp: intersect_hits_def search_failed_def outcome_page_ok_def
      split: response.splits json.splits option.splits)

lemma loadThreadsWithFilters_fetch_page:
  "1 \<le> p \<Longrightarrow> outcome_page_ok (snd (loadThreadsWithFilters_fetch net tgs cat p))"
  by (auto simp: loadThreadsWithFilters_fetch_def outcome_page_ok_def Let_def
      split: response.splits json.splits option.splits)

lemma doSearchWithFilters_fetch_page:
  "1 \<le> p \<Longrightarrow> outcome_page_ok (snd (doSearchWithFilters_fetch net keyword tgs cat p))"
proof (cases "trim keyword = []")
  case True
  assume "1 \<le> p"
  then show ?thesis
    using True by (simp add: doSearchWithFilters_fetch_def loadThreadsWithFilters_fetch_page)
next
  case False
  assume p: "1 \<le> p"
  have c: "outcome_page_ok (Commit r t p s)" for r t s
    using p by (simp add: outcome_page_ok_def)
  have f: "outcome_page_ok (search_failed m)" for m
    by (simp add: outcome_page_ok_def search_failed_def)
  show ?thesis
    using False c f intersect_hits_page [OF p]
    by (auto simp: doSearchWithFilters_fetch_def Let_def
        split: response.splits json.splits option.splits)
qed

lemma issue_ok:
  "page_system_ok sys \<Longrightarrow> outcome_page_ok out \<Longrightarrow> page_system_ok (issue out sys)"
  by (simp add: page_system_ok_def issue_def begin_request_def pending_ok_def)

lemma call_loadThreadsWithFilters_ok:
  "page_system_ok sys \<Longrightarrow> 1 \<le> p
   \<Longrightarrow> page_system_ok (call_loadThreadsWithFilters net tgs cat p sys)"
  by (simp add: call_loadThreadsWithFilters_def issue_ok loadThreadsWithFilters_fetch_page)

lemma call_doSearchWithFilters_ok:
  "page_system_ok sys \<Longrightarrow> 1 \<le> p
   \<Longrightarrow> page_system_ok (call_doSearchWithFilters net keyword tgs cat p sys)"
  by (simp add: call_doSearchWithFilters_def call_loadThreadsWithFilters_ok issue_ok
      doSearchWithFilters_fetch_page)

lemma call_doSearch_ok:
  "page_system_ok sys \<Longrightarrow> 1 \<le> p \<Longrightarrow> page_system_ok (call_doSearch net render p sys)"
  by (simp add: call_doSearch_def call_doSearchWithFilters_ok)

lemma call_loadAllThreads_ok:
  "page_system_ok sys \<Longrightarrow> 1 \<le> p \<Longrightarrow> page_system_ok (call_loadAllThreads net render p sys)"
  by (simp add: call_loadAllThreads_def call_doSearch_ok call_loadThreadsWithFilters_ok)

lemma view_filters_ok:
  "page_system_ok sys \<Longrightarrow> page v = page (view sys) \<Longrightarrow> page_system_ok (sys\<lparr>view := v\<rparr>)"
  by (simp add: page_system_ok_def)

lemma pending_without_ok:
  "page_system_ok sys \<Longrightarrow> page_system_ok (sys\<lparr>pending := without i (pending sys)\<rparr>)"
  by (auto simp: page_system_ok_def without_def list_all_iff
      dest: in_set_takeD in_set_dropD)

lemma pending_timer_ok:
  "page_system_ok sys \<Longrightarrow> page_system_ok (sys\<lparr>pending := pending sys @ [Timer k t c]\<rparr>)"
  by (simp add: page_system_ok_def pending_ok_def)

lemma settle_page:
  "1 \<le> page st \<Longrightarrow> outcome_page_ok out
   \<Longrightarrow> 1 \<le> page (settle out st) \<and> 1 \<le> page (settle_clear out st)"
  by (cases out) (simp_all add: settle_def settle_clear_def outcome_page_ok_def)

lemma useEffect_location_ok:
  "page_system_ok sys \<Longrightarrow> page_system_ok (useEffect_location loggedIn net params sys)"
  by (simp add: useEffect_location_def Let_def call_doSearch_ok call_loadAllThreads_ok
      view_filters_ok store_decoded_def)

lemma handleClear_ok: "page_system_ok sys \<Longrightarrow> page_system_ok (handleClear net sys)"
  using loadThreadsWithFilters_fetch_page [of 1 net "[]" "[]"]
  by (simp add: handleClear_def page_system_ok_def begin_request_def pending_ok_def)

lemma response_arrived_ok:
  assumes "page_system_ok sys"
  shows "page_system_ok (page_system_step loggedIn (ResponseArrived i) sys)"
proof (cases "i < length (pending sys)")
  case False
  then show ?thesis using assms by (simp add: page_system_step_def Let_def)
next
  case True
  then have item: "pending_ok (pending sys ! i)"
    using assms by (simp add: page_system_ok_def list_all_length)
  have rest: "list_all pending_ok (without i (pending sys))"
    using pending_without_ok [OF assms, of i] by (simp add: page_system_ok_def)
  have pg: "1 \<le> page (view sys)"
    using assms by (simp add: page_system_ok_def)
  show ?thesis
  proof (cases "pending sys ! i")
    case (Timer k t c)
    then show ?thesis using True assms by (simp add: page_system_step_def Let_def)
  next
    case (InFlight out)
    then have "outcome_page_ok out" using item by (simp add: pending_ok_def)
    then show ?thesis
      using True InFlight rest settle_page [OF pg, of out]
      by (simp add: page_system_step_def Let_def page_system_ok_def)
  next
    case (ClearInFlight out)
    then have "outcome_page_ok out" using item by (simp add: pending_ok_def)
    then show ?thesis
      using True ClearInFlight rest settle_page [OF pg, of out]
      by (simp add: page_system_step_def Let_def page_system_ok_def)
  qed
qed

lemma timer_fired_ok:
  assumes "page_system_ok sys"
  shows "page_system_ok (page_system_step loggedIn (TimerFired i net) sys)"
proof (cases "i < length (pending sys)")
  case False
  then show ?thesis using assms by (simp add: page_system_step_def Let_def)
next
  case True
  have w: "page_system_ok (sys\<lparr>pending := without i (pending sys)\<rparr>)"
    using assms by (rule pending_without_ok)
  show ?thesis
    using True assms w
    by (cases "pending sys ! i")
       (simp_all add: page_system_step_def Let_def call_doSearchWithFilters_ok
          call_loadThreadsWithFilters_ok)
qed

lemma page_system_step_ok:
  assumes ok: "page_system_ok sys"
  shows "page_system_ok (page_system_step loggedIn act sys)"
proof (cases act)
  case (LocationChanged params net)
  then show ?thesis using ok by (simp add: page_system_step_def Let_def useEffect_location_ok)
next
  case (SearchTyped s)
  then show ?thesis using ok by (simp add: page_system_step_def Let_def view_filters_ok)
next
  case (SearchEnter net)
  then show ?thesis using ok by (simp add: page_system_step_def Let_def call_doSearchWithFilters_ok)
next
  case (SearchClicked net)
  then show ?thesis using ok by (simp add: page_system_step_def Let_def call_doSearchWithFilters_ok)
next
  case (ClearClicked net)
  then show ?thesis using ok by (simp add: page_system_step_def Let_def handleClear_ok)
next
  case (CategorySelected c net)
  then show ?thesis using ok
    by (simp add: page_system_step_def Let_def call_doSearchWithFilters_ok
        call_loadThreadsWithFilters_ok view_filters_ok)
next
  case (TagsChanged newTags)
  have v: "page_system_ok (sys\<lparr>view := (view sys)\<lparr>tags := newTags\<rparr>\<rparr>)"
    using ok by (simp add: view_filters_ok)
  show ?thesis
    using TagsChanged v pending_timer_ok [OF v, of "q (view sys)" newTags "category (view sys)"]
    by (auto simp add: page_system_step_def Let_def)
next
  case (TimerFired i net)
  then show ?thesis using ok by (simp add: timer_fired_ok)
next
  case (TagChipClicked name net)
  then show ?thesis using ok
    by (simp add: page_system_step_def Let_def call_loadThreadsWithFilters_ok view_filters_ok)
next
  case (PreviousClicked net)
  have p: "1 \<le> page (view sys) - 1" if "\<not> page (view sys) \<le> 1"
    using that by simp
  show ?thesis
    using PreviousClicked ok p
    by (simp add: page_system_step_def Let_def call_doSearch_ok call_loadAllThreads_ok
        call_loadThreadsWithFilters_ok)
next
  case (NextClicked net)
  have p: "1 \<le> page (view sys) + 1"
    using ok by (simp add: page_system_ok_def)
  show ?thesis
    using NextClicked ok p
    by (simp add: page_system_step_def Let_def call_doSearch_ok call_loadAllThreads_ok
        call_loadThreadsWithFilters_ok)
next
  case ErrorClosed
  then show ?thesis using ok by (simp add: page_system_step_def Let_def view_filters_ok)
next
  case (ResponseArrived i)
  then show ?thesis using ok by (simp add: response_arrived_ok)
qed

lemma page_system_run_ok:
  "page_system_ok sys \<Longrightarrow> page_system_ok (page_system_run loggedIn acts sys)"
  unfolding page_system_run_def
  by (induction acts arbitrary: sys) (simp_all add: page_system_step_ok)

lemma initial_page_system_ok: "page_system_ok initial_page_system"
  by (simp add: page_system_ok_def initial_page_system_def initial_page_state_def)

lemma filter_of_begin_request: "filter_of (begin_request st) = filter_of st"
  by (simp add: filter_of_def begin_request_def)

lemma filter_of_issue: "filter_of (view (issue out sys)) = filter_of (view sys)"
  by (simp add: issue_def filter_of_begin_request)

lemma filter_of_useEffect_location:
  "filter_of (view (useEffect_location True net params sys))
   = filter_of (store_decoded (decode params) (view sys))"
  by (simp add: useEffect_location_def Let_def call_doSearch_def call_loadAllThreads_def
      call_doSearchWithFilters_def call_loadThreadsWithFilters_def filter_of_issue)

subsection \<open>The invariant\<close>

text \<open>
  C4, as stated, fails. On a page freshly opened at \<^verbatim>\<open>?tag=A,A\<close> the filter holds the tags
  \<^verbatim>\<open>A\<close>, \<^verbatim>\<open>A\<close>, neither lowercase nor free of duplicates; opened at \<^verbatim>\<open>?q=%20x\<close>, or after
  typing a space and \<^verbatim>\<open>x\<close> into the search box, it holds the keyword with its leading space.
\<close>

theorem decode_breaks_invariant:
  "filter_of (view (page_system_step True (LocationChanged [(''tag'', ''A,A'')] tag_network)
                      initial_page_system))
     = \<lparr>q = [], tags = [''A'', ''A''], category = [], page = 1\<rparr>
   \<and> \<not> FilterState_invariant \<lparr>q = [], tags = [''A'', ''A''], category = [], page = 1\<rparr>
   \<and> filter_of (view (page_system_step True (LocationChanged [(''q'', '' x'')] tag_network)
                        initial_page_system))
      = \<lparr>q = '' x'', tags = [], category = [], page = 1\<rparr>
   \<and> filter_of (view (page_system_step True (SearchTyped '' x'') initial_page_system))
      = \<lparr>q = '' x'', tags = [], category = [], page = 1\<rparr>
   \<and> \<not> FilterState_invariant \<lparr>q = '' x'', tags = [], category = [], page = 1\<rparr>"
proof -
  have e: "filter_of (view (page_system_step True (LocationChanged params tag_network)
                             initial_page_system))
           = filter_of (store_decoded (decode params) initial_page_state)" for params
    by (simp add: page_system_step_def filter_of_useEffect_location initial_page_system_def)
  show ?thesis
    unfolding e
    by (simp add: page_system_step_def Let_def filter_of_def store_decoded_def decode_def
        get_def or_empty_def trim_def is_space_def initial_page_system_def
        initial_page_state_def FilterState_invariant_def normalized_tags_def)
qed

text \<open>
  C4, amended. After any sequence of operations of the threads list page from its initial
  state (a location change that decodes the URL, typing in the search box, submitting the
  search, Clear, selecting a category, a change of the tags, the click on a tag chip,
  Previous, Next, closing the error, a timer firing, a response arriving, in any order),
  the filter the page holds has a page number of 1 or more. And no sequence of input events
  at either tag composer breaks the invariant of the committed tags: a list of lowercase
  tags without duplicates stays one; the click on a tag chip keeps a list of tags without
  duplicates one. (The keyword is stored untrimmed, and the tags decoded from a URL are
  stored as they come.)
\<close>

theorem page_and_composer_tags_invariant:
  "1 \<le> page (filter_of (view (page_system_run loggedIn acts initial_page_system)))
   \<and> (normalized_tags (committed st)
        \<longrightarrow> normalized_tags (committed (tag_input_run d evs st)))
   \<and> (normalized_tags (committed m) \<longrightarrow> normalized_tags (committed (modal_run evs m)))
   \<and> (distinct (tags (view sys))
        \<longrightarrow> distinct (tags (view (page_system_step loggedIn (TagChipClicked name net)
                                        sys))))"
proof -
  have "page_system_ok (page_system_run loggedIn acts initial_page_system)"
    using initial_page_system_ok by (rule page_system_run_ok)
  then have 1: "1 \<le> page (filter_of (view (page_system_run loggedIn acts
                                               initial_page_system)))"
    by (simp add: page_system_ok_def filter_of_def)
  have 2: "distinct (tags (view sys))
        \<longrightarrow> distinct (tags (view (page_system_step loggedIn (TagChipClicked name net)
                                        sys)))"
    by (simp add: page_system_step_def Let_def call_loadThreadsWithFilters_def issue_def
        begin_request_def)
  from 1 2 show ?thesis
    by (simp add: tag_input_run_committed modal_run_committed)
qed

theorem page_and_composer_tags_invariant_witness:
  "page_system_run True [PreviousClicked tag_network] initial_page_system
     = initial_page_system
   \<and> 1 \<le> page (filter_of (view (page_system_run True
                [PreviousClicked tag_network, LocationChanged [(''page'', ''0'')] tag_network,
                 ResponseArrived 0, PreviousClicked tag_network]
                initial_page_system)))
   \<and> normalized_tags [''go'']
   \<and> normalized_tags
        (committed (tag_input_run False
                      (typed ''#GO'' @ [Key Enter] @ typed ''#Rust'' @ [Key Enter])
                      (initial_tag_input [''go''])))
   \<and> normalized_tags
        (committed (modal_run (typed ''#GO'' @ [Key Enter] @ typed ''#Rust'' @ [Key Enter])
                      (initial_composer [''go''])))
   \<and> distinct (tags (view initial_page_system))
   \<and> distinct (tags (view (page_system_step True (TagChipClicked ''Go'' tag_network)
                                initial_page_system)))"
proof -
  have n: "normalized_tags [''go'']"
    by (simp add: normalized_tags_def toLowerCase_def lower_char_def uppers_def lowers_def)
  have p: "page_system_run True [PreviousClicked tag_network] initial_page_system
           = initial_page_system"
    by (simp add: page_system_run_def page_system_step_def Let_def initial_page_system_def
        initial_page_state_def)
  have i: "distinct (tags (view initial_page_system))"
    by (simp add: initial_page_system_def initial_page_state_def)
  show ?thesis
    using n p i
      page_and_composer_tags_invariant
        [where loggedIn = True
           and acts = "[PreviousClicked tag_network,
                        LocationChanged [(''page'', ''0'')] tag_network,
                        ResponseArrived 0, PreviousClicked tag_network]"
           and st = "initial_tag_input [''go'']" and d = False
           and evs = "typed ''#GO'' @ [Key Enter] @ typed ''#Rust'' @ [Key Enter]"
           and m = "initial_composer [''go'']" and sys = initial_page_system
           and name = "''Go''" and net = tag_network]
    by (simp add: initial_tag_input_def initial_composer_def)
qed

end
